theory Spec2Isabelle
  imports Complex_Main
begin

unbundle bit_operations_syntax

section \<open>JavaScript values and string helpers\<close>

text \<open>
  Argument values are whatever \<^verbatim>\<open>JSON.parse\<close> produced (the source types them
  \<^verbatim>\<open>unknown\<close>/\<^verbatim>\<open>any\<close>), plus \<^verbatim>\<open>undefined\<close> for an absent key. JSON numbers
  are finite, hence rationals.
\<close>

datatype jsval =
    JUndefined
  | JNull
  | JBool bool
  | JNum rat
  | JStr string
  | JArr "jsval list"
  | JObj "(string \<times> jsval) list"
  | JBuiltin string

text \<open>\<^verbatim>\<open>a === b\<close>: primitives compare by value, arrays and objects by reference; two
  values that come from different places of a parsed document are never the same reference.\<close>

fun strict_eq :: "jsval \<Rightarrow> jsval \<Rightarrow> bool" where
  "strict_eq JUndefined JUndefined = True"
| "strict_eq JNull JNull = True"
| "strict_eq (JBool a) (JBool b) = (a = b)"
| "strict_eq (JNum a) (JNum b) = (a = b)"
| "strict_eq (JStr a) (JStr b) = (a = b)"
| "strict_eq (JBuiltin a) (JBuiltin b) = (a = b)"
| "strict_eq _ _ = False"

text \<open>\<^verbatim>\<open>s.startsWith(p)\<close>, \<^verbatim>\<open>s.endsWith(p)\<close>, \<^verbatim>\<open>s.includes(p)\<close>.\<close>

definition startsWith :: "string \<Rightarrow> string \<Rightarrow> bool" where
  "startsWith s p = (take (length p) s = p)"

definition endsWith :: "string \<Rightarrow> string \<Rightarrow> bool" where
  "endsWith s p = (length p \<le> length s \<and> drop (length s - length p) s = p)"

fun str_includes :: "string \<Rightarrow> string \<Rightarrow> bool" where
  "str_includes [] p = (p = [])"
| "str_includes (c # s) p = (startsWith (c # s) p \<or> str_includes s p)"

text \<open>\<^verbatim>\<open>xs?.[i]\<close> on an optional array: \<^verbatim>\<open>undefined\<close> (here \<open>None\<close>) when the array is
  absent or the index is out of range.\<close>

definition opt_nth :: "'a list option \<Rightarrow> nat \<Rightarrow> 'a option" where
  "opt_nth xs i = (case xs of None \<Rightarrow> None
                   | Some ys \<Rightarrow> if i < length ys then Some (ys ! i) else None)"

subsection \<open>Numbers used as identifiers\<close>

text \<open>
  A node id is an integer (\<^verbatim>\<open>id: number\<close>, written by the editor as 1, 2, 3, ...).
  \<open>NaN\<close> is what \<^verbatim>\<open>Number(s)\<close> yields on a string that is no numeric literal.
\<close>

datatype number = Num int | NaN

definition digit_char :: "nat \<Rightarrow> char" where
  "digit_char d = ''0123456789'' ! d"

fun digits_nat :: "nat \<Rightarrow> string" where
  "digits_nat n = (if n < 10 then [digit_char n]
                   else digits_nat (n div 10) @ [digit_char (n mod 10)])"

declare digits_nat.simps [simp del]

text \<open>\<^verbatim>\<open>n.toString()\<close> and \<^verbatim>\<open>n.toFixed()\<close> agree on integers: the decimal digits, with a
  leading minus sign for a negative number.\<close>

definition int_toString :: "int \<Rightarrow> string" where
  "int_toString i = (if i < 0 then CHR ''-'' # digits_nat (nat (- i)) else digits_nat (nat i))"

fun toFixed :: "number \<Rightarrow> string" where
  "toFixed (Num i) = int_toString i"
| "toFixed NaN = ''NaN''"

definition is_digit :: "char \<Rightarrow> bool" where
  "is_digit c = (48 \<le> (of_char c :: nat) \<and> (of_char c :: nat) \<le> 57)"

definition digit_val :: "char \<Rightarrow> nat" where
  "digit_val c = (of_char c :: nat) - 48"

definition nat_of_digits :: "string \<Rightarrow> nat" where
  "nat_of_digits s = foldl (\<lambda>acc c. 10 * acc + digit_val c) 0 s"

definition is_ws :: "char \<Rightarrow> bool" where
  "is_ws c = (c \<in> set [CHR '' '', CHR 0x09, CHR 0x0A, CHR 0x0B, CHR 0x0C, CHR 0x0D])"

definition trim :: "string \<Rightarrow> string" where
  "trim s = rev (dropWhile is_ws (rev (dropWhile is_ws s)))"

definition unsigned_int :: "string \<Rightarrow> number" where
  "unsigned_int s = (if s \<noteq> [] \<and> list_all is_digit s then Num (int (nat_of_digits s)) else NaN)"

text \<open>
  \<^verbatim>\<open>Number(s)\<close> on the strings the editor stores as ids: surrounding white space is
  dropped, the empty string is 0, an optionally signed run of decimal digits is that
  integer. Every other string (fractions, exponents, hexadecimal, \<^verbatim>\<open>Infinity\<close>, text) is
  no integer and is mapped to \<open>NaN\<close>.
\<close>

definition Number :: "string \<Rightarrow> number" where
  "Number s = (case trim s of
       [] \<Rightarrow> Num 0
     | c # t \<Rightarrow>
        if c = CHR ''-'' then (case unsigned_int t of Num n \<Rightarrow> Num (- n) | NaN \<Rightarrow> NaN)
        else if c = CHR ''+'' then unsigned_int t
        else unsigned_int (c # t))"

section \<open>Data model\<close>

text \<open>An entry of \<^verbatim>\<open>NodeArg.options\<close>.\<close>

record ArgOption =
  opt_name :: string
  opt_value :: jsval

record NodeArg =
  na_name :: string
  na_type :: string
  na_options :: "ArgOption list option"
  na_oneof :: "string option"

text \<open>\<^verbatim>\<open>NodeDef\<close>; \<open>nd_children\<close> is the required child count (\<open>-1\<close>: any number).\<close>

record NodeDef =
  nd_name :: string
  nd_desc :: "string option"
  nd_args :: "NodeArg list option"
  nd_input :: "string list option"
  nd_output :: "string list option"
  nd_children :: "int option"
  nd_status :: "string list option"

type_synonym args = "(string \<times> jsval) list"

text \<open>
  \<^verbatim>\<open>NodeModel\<close>, the stored node. The fields other than \<^verbatim>\<open>children\<close> form a record;
  the node is that record together with the optional child list.
\<close>

record NodeFields =
  nm_id :: number
  nm_name :: string
  nm_desc :: "string option"
  nm_args :: "args option"
  nm_input :: "string list option"
  nm_output :: "string list option"
  nm_debug :: "bool option"
  nm_disabled :: "bool option"
  nm_path :: "string option"

datatype NodeModel = NodeModel (nm_fields: NodeFields) (nm_children: "NodeModel list option")

text \<open>
  \<^verbatim>\<open>TreeGraphData\<close>, the node of the editor's graph. \<^verbatim>\<open>size\<close> is left out: it is
  computed from canvas text metrics and no function below reads it.
\<close>

record GraphFields =
  tg_id :: string
  tg_name :: string
  tg_desc :: "string option"
  tg_args :: "args option"
  tg_input :: "string list option"
  tg_output :: "string list option"
  tg_debug :: "bool option"
  tg_disabled :: "bool option"
  tg_path :: "string option"
  tg_def :: NodeDef
  tg_parent :: "string option"
  tg_status :: "int option"
  tg_lastModified :: "nat option"

datatype TreeGraphData =
  TreeGraphData (tg_fields: GraphFields) (tg_children: "TreeGraphData list option")

text \<open>Truthiness of the optional fields, as \<^verbatim>\<open>if (x)\<close> and \<^verbatim>\<open>x || undefined\<close> read them.\<close>

definition truthy_str :: "string option \<Rightarrow> bool" where
  "truthy_str s = (case s of None \<Rightarrow> False | Some t \<Rightarrow> t \<noteq> [])"

definition truthy_bool :: "bool option \<Rightarrow> bool" where
  "truthy_bool b = (case b of None \<Rightarrow> False | Some t \<Rightarrow> t)"

definition truthy_num :: "int option \<Rightarrow> bool" where
  "truthy_num n = (case n of None \<Rightarrow> False | Some t \<Rightarrow> t \<noteq> 0)"

section \<open>Status flags and id assignment\<close>

text \<open>\<^verbatim>\<open>const enum StatusFlag\<close>: bit positions.\<close>

definition SUCCESS :: nat where "SUCCESS = 2"

definition FAILURE :: nat where "FAILURE = 1"

definition RUNNING :: nat where "RUNNING = 0"

definition SUCCESS_ZERO :: nat where "SUCCESS_ZERO = 5"

definition FAILURE_ZERO :: nat where "FAILURE_ZERO = 4"

definition toStatusFlag_step :: "int \<Rightarrow> string \<Rightarrow> int" where
  "toStatusFlag_step status s =
     (if s = ''success'' then status OR push_bit SUCCESS 1
      else if s = ''failure'' then status OR push_bit FAILURE 1
      else if s = ''running'' then status OR push_bit RUNNING 1
      else status)"

definition toStatusFlag :: "NodeDef \<Rightarrow> int" where
  "toStatusFlag d = foldl toStatusFlag_step 0 (case nd_status d of None \<Rightarrow> [] | Some ss \<Rightarrow> ss)"

definition appendStatusFlag :: "int \<Rightarrow> int \<Rightarrow> int" where
  "appendStatusFlag status childStatus =
     (let childSuccess = drop_bit SUCCESS childStatus AND 1;
          childFailure = drop_bit FAILURE childStatus AND 1;
          status1 = (if childSuccess = 0 then status OR push_bit SUCCESS_ZERO 1 else status);
          status2 = (if childFailure = 0 then status1 OR push_bit FAILURE_ZERO 1 else status1)
      in status2 OR childStatus)"

definition buildStatusFlag_step :: "int \<Rightarrow> int \<Rightarrow> string \<Rightarrow> int" where
  "buildStatusFlag_step childStatus status s =
     (let childSuccess = drop_bit SUCCESS childStatus AND 1;
          childFailure = drop_bit FAILURE childStatus AND 1;
          childRunning = drop_bit RUNNING childStatus AND 1;
          childHasZeroSuccess = drop_bit SUCCESS_ZERO childStatus AND 1;
          childHasZeroFailure = drop_bit FAILURE_ZERO childStatus AND 1
      in if s = ''!success'' then status OR push_bit SUCCESS childFailure
         else if s = ''!failure'' then status OR push_bit FAILURE childSuccess
         else if s = ''|success'' then status OR push_bit SUCCESS childSuccess
         else if s = ''|failure'' then status OR push_bit FAILURE childFailure
         else if s = ''|running'' then status OR push_bit RUNNING childRunning
         else if s = ''&success'' then
           (if childHasZeroSuccess \<noteq> 0 then status AND NOT (push_bit SUCCESS 1)
            else status OR push_bit SUCCESS childSuccess)
         else if s = ''&failure'' then
           (if childHasZeroFailure \<noteq> 0 then status AND NOT (push_bit FAILURE 1)
            else status OR push_bit FAILURE childFailure)
         else status)"

text \<open>\<^verbatim>\<open>buildStatusFlag(data, childStatus)\<close>: the new value of \<^verbatim>\<open>data.status\<close>, from the
  node's definition and its current status.\<close>

definition buildStatusFlag :: "NodeDef \<Rightarrow> int \<Rightarrow> int \<Rightarrow> int" where
  "buildStatusFlag d status childStatus =
     (case nd_status d of
        Some (s # ss) \<Rightarrow> foldl (buildStatusFlag_step childStatus) status (s # ss)
      | _ \<Rightarrow> status OR childStatus)"

text \<open>
  \<^verbatim>\<open>refreshTreeDataId(data, id?)\<close> returns the next free id and the renumbered node
  (the source mutates \<^verbatim>\<open>data\<close> in place). \<open>refreshChildren\<close> is the body of the
  \<^verbatim>\<open>forEach\<close> over \<^verbatim>\<open>data.children\<close>: it threads the counter and \<^verbatim>\<open>childStatus\<close>.
  The assignment \<^verbatim>\<open>child.parent = data.id\<close> is applied to the renumbered child; the
  recursive call never reads or writes the \<^verbatim>\<open>parent\<close> of the node it is called on.
\<close>

fun set_parent :: "string \<Rightarrow> TreeGraphData \<Rightarrow> TreeGraphData" where
  "set_parent p (TreeGraphData f ch) = TreeGraphData (f\<lparr>tg_parent := Some p\<rparr>) ch"

fun refreshTreeDataId :: "TreeGraphData \<Rightarrow> int option \<Rightarrow> int \<times> TreeGraphData"
  and refreshChildren :: "string \<Rightarrow> TreeGraphData list \<Rightarrow> int \<Rightarrow> int
                          \<Rightarrow> int \<times> int \<times> TreeGraphData list" where
  "refreshTreeDataId (TreeGraphData f ch) ido =
     (let id0 = (case ido of None \<Rightarrow> 1 | Some i \<Rightarrow> if i = 0 then 1 else i);
          status = toStatusFlag (tg_def f);
          f1 = f\<lparr>tg_id := int_toString id0, tg_status := Some status\<rparr>;
          id1 = id0 + 1
      in case ch of
           None \<Rightarrow> (id1, TreeGraphData f1 None)
         | Some cs \<Rightarrow>
             (case refreshChildren (tg_id f1) cs id1 0 of
                (id2, childStatus, cs') \<Rightarrow>
                  (id2, TreeGraphData
                          (f1\<lparr>tg_status := Some (buildStatusFlag (tg_def f1) status childStatus)\<rparr>)
                          (Some cs'))))"
| "refreshChildren pid [] idn childStatus = (idn, childStatus, [])"
| "refreshChildren pid (c # cs) idn childStatus =
     (case refreshTreeDataId c (Some idn) of
        (idn', c0) \<Rightarrow>
          let c' = set_parent pid c0;
              childStatus' =
                (if truthy_num (tg_status (tg_fields c')) \<and> \<not> truthy_bool (tg_disabled (tg_fields c'))
                 then appendStatusFlag childStatus (the (tg_status (tg_fields c')))
                 else childStatus)
          in case refreshChildren pid cs idn' childStatus' of
               (idn'', childStatus'', cs') \<Rightarrow> (idn'', childStatus'', c' # cs'))"

section \<open>Validation\<close>

text \<open>
  The type tests and the sentinel definition that the source imports from
  \<^verbatim>\<open>@/misc/b3type\<close> are parameters of the model.
\<close>

record B3Type =
  isFloatType :: "string \<Rightarrow> bool"
  isIntType :: "string \<Rightarrow> bool"
  isStringType :: "string \<Rightarrow> bool"
  isEnumType :: "string \<Rightarrow> bool"
  isExprType :: "string \<Rightarrow> bool"
  isJsonType :: "string \<Rightarrow> bool"
  isBoolType :: "string \<Rightarrow> bool"
  unknownNodeDef :: NodeDef

text \<open>Modelled from the spec: the seven type tests and \<^verbatim>\<open>unknownNodeDef\<close> of
  \<^verbatim>\<open>@/misc/b3type\<close>. The spec names the base kinds float, int, string, enum, expr, json
  and bool, and a fixed sentinel definition for unknown node names.\<close>

definition specB3Type :: B3Type where
  "specB3Type =
     \<lparr>isFloatType = (\<lambda>t. t = ''float''), isIntType = (\<lambda>t. t = ''int''),
      isStringType = (\<lambda>t. t = ''string''), isEnumType = (\<lambda>t. t = ''enum''),
      isExprType = (\<lambda>t. t = ''expr''), isJsonType = (\<lambda>t. t = ''json''),
      isBoolType = (\<lambda>t. t = ''bool''),
      unknownNodeDef = \<lparr>nd_name = ''unknown'', nd_desc = None, nd_args = None, nd_input = None,
                         nd_output = None, nd_children = None, nd_status = None\<rparr>\<rparr>"

text \<open>\<^verbatim>\<open>useWorkspace.getState()\<close>: the registry lookup and the project directory.\<close>

record Workspace =
  getNodeDef :: "string \<Rightarrow> NodeDef"
  workdir :: string

text \<open>
  The diagnostics of \<^verbatim>\<open>error(data, msg)\<close>, which prints
  \<^verbatim>\<open>check ${data.id}|${data.name}: ${msg}\<close>. A message keeps the values its template
  interpolates.
\<close>

datatype msg =
    NotANumber string jsval
  | NotAnInt string jsval
  | NotAString string jsval
  | NotAnOption string jsval
  | NotAnExpr string jsval
  | NotAnObject string jsval
  | NotABoolean string jsval
  | UnknownArgType string
  | NotAnArray string jsval
  | OnlyOneAllowed string "string option"
  | UndefinedNode string
  | ExpectChildren int nat
  | InputRequired string
  | OutputRequired string

datatype diag = Diag (diag_id: string) (diag_name: string) (diag_msg: msg)

datatype exn = TypeError

text \<open>What the validators read of a \<^verbatim>\<open>NodeModel | TreeGraphData\<close>: the id as the
  template prints it, the name, the arguments and the inputs.\<close>

record NodeView =
  nv_id :: string
  nv_name :: string
  nv_args :: "args option"
  nv_input :: "string list option"

definition view_of_model :: "NodeFields \<Rightarrow> NodeView" where
  "view_of_model f = \<lparr>nv_id = toFixed (nm_id f), nv_name = nm_name f,
                       nv_args = nm_args f, nv_input = nm_input f\<rparr>"

definition view_of_graph :: "GraphFields \<Rightarrow> NodeView" where
  "view_of_graph f = \<lparr>nv_id = tg_id f, nv_name = tg_name f,
                       nv_args = tg_args f, nv_input = tg_input f\<rparr>"

definition error :: "NodeView \<Rightarrow> msg \<Rightarrow> diag" where
  "error data m = Diag (nv_id data) (nv_name data) m"

text \<open>
  An \<^verbatim>\<open>args\<close> object is a plain object, as \<^verbatim>\<open>JSON.parse\<close> and \<^verbatim>\<open>{}\<close> make it: its own
  keys, over \<^verbatim>\<open>Object.prototype\<close>. These are the names \<^verbatim>\<open>Object.prototype\<close> defines; a
  read of one of them on an object that has no such key of its own yields the inherited
  member \<open>JBuiltin name\<close> (a function; for \<^verbatim>\<open>__proto__\<close> the prototype object itself).
\<close>

definition object_prototype_names :: "string list" where
  "object_prototype_names =
     [''constructor'', ''__defineGetter__'', ''__defineSetter__'', ''hasOwnProperty'',
      ''__lookupGetter__'', ''__lookupSetter__'', ''isPrototypeOf'', ''propertyIsEnumerable'',
      ''toString'', ''valueOf'', ''__proto__'', ''toLocaleString'']"

text \<open>\<^verbatim>\<open>obj[key]\<close> on a plain object: the own key, else the inherited member, else
  \<^verbatim>\<open>undefined\<close>.\<close>

definition get_property :: "args \<Rightarrow> string \<Rightarrow> jsval" where
  "get_property al k =
     (case map_of al k of
        Some v \<Rightarrow> v
      | None \<Rightarrow> if k \<in> set object_prototype_names then JBuiltin k else JUndefined)"

text \<open>\<^verbatim>\<open>data.args?.[key]\<close>.\<close>

definition arg_value :: "args option \<Rightarrow> string \<Rightarrow> jsval" where
  "arg_value a k = (case a of None \<Rightarrow> JUndefined | Some al \<Rightarrow> get_property al k)"

text \<open>\<^verbatim>\<open>\w\<close> of a regular expression: a letter, a digit or the underscore.\<close>

definition is_word_char :: "char \<Rightarrow> bool" where
  "is_word_char c =
     (let n = (of_char c :: nat)
      in (48 \<le> n \<and> n \<le> 57) \<or> (65 \<le> n \<and> n \<le> 90) \<or> (97 \<le> n \<and> n \<le> 122) \<or> n = 95)"

text \<open>\<^verbatim>\<open>arg.type.match(/^\w+/)![0]\<close>: with no leading word character the match is
  \<^verbatim>\<open>null\<close> and the index raises a TypeError (\<open>None\<close>).\<close>

definition getNodeArgRawType :: "NodeArg \<Rightarrow> string option" where
  "getNodeArgRawType arg =
     (case takeWhile is_word_char (na_type arg) of [] \<Rightarrow> None | c # w \<Rightarrow> Some (c # w))"

definition isNodeArgArray :: "NodeArg \<Rightarrow> bool" where
  "isNodeArgArray arg = str_includes (na_type arg) ''[]''"

definition isNodeArgOptional :: "NodeArg \<Rightarrow> bool" where
  "isNodeArgOptional arg = str_includes (na_type arg) ''?''"

definition is_number :: "jsval \<Rightarrow> bool" where
  "is_number v = (case v of JNum _ \<Rightarrow> True | _ \<Rightarrow> False)"

definition is_integer :: "jsval \<Rightarrow> bool" where
  "is_integer v = (case v of JNum r \<Rightarrow> r = of_int \<lfloor>r\<rfloor> | _ \<Rightarrow> False)"

definition is_nonempty_string :: "jsval \<Rightarrow> bool" where
  "is_nonempty_string v = (case v of JStr s \<Rightarrow> s \<noteq> [] | _ \<Rightarrow> False)"

definition is_boolean :: "jsval \<Rightarrow> bool" where
  "is_boolean v = (case v of JBool _ \<Rightarrow> True | _ \<Rightarrow> False)"

text \<open>One branch of \<^verbatim>\<open>checkNodeArgValue\<close>: the value is accepted, or the error flag is
  set and, when \<^verbatim>\<open>verbose\<close>, the message is printed.\<close>

definition branch :: "bool \<Rightarrow> bool \<Rightarrow> diag \<Rightarrow> bool \<times> diag list" where
  "branch accepted verbose d =
     (if \<not> accepted then (False, if verbose then [d] else []) else (True, []))"

definition checkNodeArgValue ::
    "B3Type \<Rightarrow> NodeView \<Rightarrow> NodeArg \<Rightarrow> jsval \<Rightarrow> bool \<Rightarrow> exn + (bool \<times> diag list)" where
  "checkNodeArgValue b3 data arg v verbose =
     (case getNodeArgRawType arg of
        None \<Rightarrow> Inl TypeError
      | Some ty \<Rightarrow> Inr
         (if isFloatType b3 ty then
            (let isNumber = is_number v;
                 isOptional = (v = JUndefined \<and> isNodeArgOptional arg)
             in branch (isNumber \<or> isOptional) verbose (error data (NotANumber (na_name arg) v)))
          else if isIntType b3 ty then
            (let isInt = is_integer v;
                 isOptional = (v = JUndefined \<and> isNodeArgOptional arg)
             in branch (isInt \<or> isOptional) verbose (error data (NotAnInt (na_name arg) v)))
          else if isStringType b3 ty then
            (let isString = is_nonempty_string v;
                 isOptional = ((v = JUndefined \<or> v = JStr []) \<and> isNodeArgOptional arg)
             in branch (isString \<or> isOptional) verbose (error data (NotAString (na_name arg) v)))
          else if isEnumType b3 ty then
            (let isEnum = (case na_options arg of None \<Rightarrow> False
                           | Some os \<Rightarrow> list_ex (\<lambda>option. strict_eq (opt_value option) v) os);
                 isOptional = (v = JUndefined \<and> isNodeArgOptional arg)
             in branch (isEnum \<or> isOptional) verbose (error data (NotAnOption (na_name arg) v)))
          else if isExprType b3 ty then
            (let isExpr = is_nonempty_string v;
                 isOptional = ((v = JUndefined \<or> v = JStr []) \<and> isNodeArgOptional arg)
             in branch (isExpr \<or> isOptional) verbose (error data (NotAnExpr (na_name arg) v)))
          else if isJsonType b3 ty then
            (let isJson = (v \<noteq> JUndefined \<and> v \<noteq> JStr []);
                 isOptional = isNodeArgOptional arg
             in branch (isJson \<or> isOptional) verbose (error data (NotAnObject (na_name arg) v)))
          else if isBoolType b3 ty then
            (let isBool = (is_boolean v \<or> v = JUndefined)
             in branch isBool verbose (error data (NotABoolean (na_name arg) v)))
          else (True, [error data (UnknownArgType (na_type arg))])))"

text \<open>\<^verbatim>\<open>checkOneof(argValue, inputValue)\<close>.\<close>

definition checkOneof :: "jsval \<Rightarrow> jsval \<Rightarrow> bool" where
  "checkOneof argValue inputValue =
     (let a = (if argValue = JUndefined then JStr [] else argValue);
          i = (if inputValue = JUndefined \<or> inputValue = JNull then JStr [] else inputValue)
      in (\<not> strict_eq a (JStr []) \<and> strict_eq i (JStr []))
         \<or> (strict_eq a (JStr []) \<and> \<not> strict_eq i (JStr [])))"

text \<open>\<^verbatim>\<open>xs.findIndex(p)\<close>, \<open>None\<close> for \<open>-1\<close>.\<close>

fun findIndex :: "('a \<Rightarrow> bool) \<Rightarrow> 'a list \<Rightarrow> nat option" where
  "findIndex p [] = None"
| "findIndex p (x # xs) =
     (if p x then Some 0 else (case findIndex p xs of None \<Rightarrow> None | Some k \<Rightarrow> Some (Suc k)))"

text \<open>The slot value \<^verbatim>\<open>data.input?.[idx]\<close> for
  \<^verbatim>\<open>idx = conf.input?.findIndex((v) => v.startsWith(arg.oneof!)) ?? -1\<close>; index \<open>-1\<close>
  reads \<^verbatim>\<open>undefined\<close>.\<close>

definition oneof_input :: "NodeView \<Rightarrow> NodeDef \<Rightarrow> string \<Rightarrow> string option" where
  "oneof_input data conf tag =
     (case nd_input conf of
        None \<Rightarrow> None
      | Some defs \<Rightarrow> (case findIndex (\<lambda>v. startsWith v tag) defs of
                       None \<Rightarrow> None
                     | Some idx \<Rightarrow> opt_nth (nv_input data) idx))"

definition js_of_slot :: "string option \<Rightarrow> jsval" where
  "js_of_slot s = (case s of None \<Rightarrow> JUndefined | Some t \<Rightarrow> JStr t)"

text \<open>The loop over the elements of an array argument.\<close>

fun checkElements ::
    "B3Type \<Rightarrow> NodeView \<Rightarrow> NodeArg \<Rightarrow> jsval list \<Rightarrow> bool \<Rightarrow> exn + (bool \<times> diag list)" where
  "checkElements b3 data arg [] verbose = Inr (True, [])"
| "checkElements b3 data arg (v # vs) verbose =
     (case checkNodeArgValue b3 data arg v verbose of
        Inl e \<Rightarrow> Inl e
      | Inr (ok, ds) \<Rightarrow>
          (case checkElements b3 data arg vs verbose of
             Inl e \<Rightarrow> Inl e
           | Inr (ok', ds') \<Rightarrow> Inr (ok \<and> ok', ds @ ds')))"

text \<open>
  \<^verbatim>\<open>checkNodeArg(data, conf, i, verbose)\<close>, in two parts. \<open>checkArgType\<close> is its first
  statement, the check of the value (or of each element of an array value) against the
  declared type. \<open>checkNodeArg\<close> then adds the \<^verbatim>\<open>oneof\<close> check. \<^verbatim>\<open>conf.args![i]\<close> with
  no argument list, or past its end, makes \<^verbatim>\<open>arg.name\<close> raise a TypeError.
\<close>

definition checkArgType ::
    "B3Type \<Rightarrow> NodeView \<Rightarrow> NodeArg \<Rightarrow> bool \<Rightarrow> exn + (bool \<times> diag list)" where
  "checkArgType b3 data arg verbose =
     (let v = arg_value (nv_args data) (na_name arg)
      in if isNodeArgArray arg then
           (case v of
              JArr vs \<Rightarrow>
                if \<not> isNodeArgOptional arg \<and> vs = []
                then Inr (branch False verbose (error data (NotAnArray (na_name arg) v)))
                else checkElements b3 data arg vs verbose
            | _ \<Rightarrow> Inr (branch False verbose (error data (NotAnArray (na_name arg) v))))
         else checkNodeArgValue b3 data arg v verbose)"

definition checkNodeArg ::
    "B3Type \<Rightarrow> NodeView \<Rightarrow> NodeDef \<Rightarrow> nat \<Rightarrow> bool \<Rightarrow> exn + (bool \<times> diag list)" where
  "checkNodeArg b3 data conf i verbose =
     (case opt_nth (nd_args conf) i of
        None \<Rightarrow> Inl TypeError
      | Some arg \<Rightarrow>
          (case checkArgType b3 data arg verbose of
             Inl e \<Rightarrow> Inl e
           | Inr (ok, ds) \<Rightarrow>
               (case na_oneof arg of
                  None \<Rightarrow> Inr (ok, ds)
                | Some tag \<Rightarrow>
                    (let slot = oneof_input data conf tag
                     in if \<not> checkOneof (arg_value (nv_args data) (na_name arg)) (js_of_slot slot)
                        then Inr (False, ds @ (if verbose
                                   then [error data (OnlyOneAllowed (na_name arg) slot)] else []))
                        else Inr (ok, ds)))))"

text \<open>
  \<^verbatim>\<open>isValidInputOrOutput(inputDef, inputData, index)\<close>, read as a condition. Past the
  end of \<^verbatim>\<open>inputDef\<close> the call \<^verbatim>\<open>inputDef[index].includes\<close> raises a TypeError.
\<close>

definition isValidInputOrOutput :: "string list \<Rightarrow> string list option \<Rightarrow> nat \<Rightarrow> exn + bool" where
  "isValidInputOrOutput inputDef inputData index =
     (if index < length inputDef then
        Inr (str_includes (inputDef ! index) ''?''
             \<or> truthy_str (opt_nth inputData index)
             \<or> (index = length inputDef - 1 \<and> endsWith (inputDef ! index) ''...''))
      else Inl TypeError)"

text \<open>\<^verbatim>\<open>xs[i] = v\<close> on an array: inside the array the entry is replaced, at its end the
  array grows by one. (The loops below reach every index in turn, so an index is never
  past the end.)\<close>

definition set_slot :: "string list \<Rightarrow> nat \<Rightarrow> string \<Rightarrow> string list" where
  "set_slot xs i v = (if i < length xs then xs[i := v] else xs @ replicate (i - length xs) [] @ [v])"

text \<open>Defining the own key \<open>k\<close>: an existing key keeps its place, a new key goes last.\<close>

fun obj_set :: "string \<Rightarrow> jsval \<Rightarrow> args \<Rightarrow> args" where
  "obj_set k v [] = [(k, v)]"
| "obj_set k v ((k', v') # al) = (if k = k' then (k, v) # al else (k', v') # obj_set k v al)"

text \<open>
  \<^verbatim>\<open>obj[key] = value\<close> on an object built from \<^verbatim>\<open>{}\<close>, as to its own keys. Every key
  but \<^verbatim>\<open>__proto__\<close> becomes an own key. An assignment to \<^verbatim>\<open>__proto__\<close> runs the setter
  inherited from \<^verbatim>\<open>Object.prototype\<close> and defines no own key (the setter replaces the
  object's prototype when the value is an object or \<^verbatim>\<open>null\<close>; own keys are all that is
  kept of an object here).
\<close>

definition assign_property :: "string \<Rightarrow> jsval \<Rightarrow> args \<Rightarrow> args" where
  "assign_property k v al = (if k = ''__proto__'' then al else obj_set k v al)"

text \<open>
  The state of one of the two slot loops of \<^verbatim>\<open>checkNodeData\<close>: \<^verbatim>\<open>data.input\<close> (or
  \<^verbatim>\<open>data.output\<close>), whether no error was found, \<^verbatim>\<open>hasVaridicInput\<close>, and the
  diagnostics printed.
\<close>

record SlotState =
  ss_data :: "string list option"
  ss_ok :: bool
  ss_variadic :: bool
  ss_log :: "diag list"

fun slotLoop :: "(string \<Rightarrow> diag) \<Rightarrow> string list \<Rightarrow> nat list \<Rightarrow> SlotState
                 \<Rightarrow> SlotState \<times> exn option" where
  "slotLoop required defs [] s = (s, None)"
| "slotLoop required defs (i # is) s =
     (let xs = (case ss_data s of None \<Rightarrow> [] | Some ys \<Rightarrow> ys);
          xs' = (if \<not> truthy_str (opt_nth (Some xs) i) then set_slot xs i [] else xs);
          s1 = s\<lparr>ss_data := Some xs'\<rparr>
      in case isValidInputOrOutput defs (Some xs') i of
           Inl e \<Rightarrow> (s1, Some e)
         | Inr valid \<Rightarrow>
             slotLoop required defs is
               (s1\<lparr>ss_ok := ss_ok s1 \<and> valid,
                   ss_log := ss_log s1 @ (if valid then [] else [required (defs ! i)]),
                   ss_variadic := ss_variadic s1
                      \<or> (i = length defs - 1 \<and> endsWith (last defs) ''...'')\<rparr>))"

text \<open>The slot loop and the truncation \<^verbatim>\<open>data.input.length = conf.input?.length || 0\<close>
  that follows it.\<close>

definition checkSlots :: "(string \<Rightarrow> diag) \<Rightarrow> string list option \<Rightarrow> string list option
                          \<Rightarrow> SlotState \<times> exn option" where
  "checkSlots required defs slots =
     (let s0 = \<lparr>ss_data = slots, ss_ok = True, ss_variadic = False, ss_log = []\<rparr>;
          (s1, e) = (case defs of None \<Rightarrow> (s0, None)
                     | Some ds \<Rightarrow> slotLoop required ds [0..<length ds] s0)
      in case e of
           Some x \<Rightarrow> (s1, Some x)
         | None \<Rightarrow>
             (case ss_data s1 of
                Some xs \<Rightarrow>
                  if \<not> ss_variadic s1
                  then (s1\<lparr>ss_data := Some (take (case defs of None \<Rightarrow> 0 | Some ds \<Rightarrow> length ds) xs)\<rparr>,
                        None)
                  else (s1, None)
              | None \<Rightarrow> (s1, None)))"

text \<open>The loop over \<^verbatim>\<open>conf.args\<close> of \<^verbatim>\<open>checkNodeData\<close>: the new \<^verbatim>\<open>args\<close> object, the
  error flag and the diagnostics.\<close>

fun argsLoop :: "B3Type \<Rightarrow> NodeView \<Rightarrow> NodeDef \<Rightarrow> NodeArg list \<Rightarrow> nat \<Rightarrow> args \<times> bool \<times> diag list
                 \<Rightarrow> (args \<times> bool \<times> diag list) \<times> exn option" where
  "argsLoop b3 data conf [] i s = (s, None)"
| "argsLoop b3 data conf (a # as) i (args, ok, ds) =
     (let key = na_name a;
          v = arg_value (nv_args data) key;
          args1 = (if v \<noteq> JUndefined then assign_property key v args else args)
      in case checkNodeArg b3 data conf i True of
           Inl e \<Rightarrow> ((args1, ok, ds), Some e)
         | Inr (ok', ds') \<Rightarrow> argsLoop b3 data conf as (Suc i) (args1, ok \<and> ok', ds @ ds'))"

text \<open>
  \<^verbatim>\<open>checkNodeData(data)\<close> on a node: the diagnostics printed, the node as the call
  leaves it (the source normalises \<^verbatim>\<open>data\<close> in place), and the value returned or the
  exception raised. \<open>checkChildren\<close> is the loop over \<^verbatim>\<open>data.children\<close>.
\<close>

fun checkNodeData :: "B3Type \<Rightarrow> Workspace \<Rightarrow> NodeModel \<Rightarrow> diag list \<times> NodeModel \<times> (exn + bool)"
  and checkChildren :: "B3Type \<Rightarrow> Workspace \<Rightarrow> NodeModel list
                        \<Rightarrow> diag list \<times> NodeModel list \<times> (exn + bool)" where
  "checkNodeData b3 ws (NodeModel f ch) =
     (let conf = getNodeDef ws (nm_name f) in
      if nd_name conf = nd_name (unknownNodeDef b3)
      then ([error (view_of_model f) (UndefinedNode (nm_name f))], NodeModel f ch, Inr False)
      else
        let count = (case ch of None \<Rightarrow> 0 | Some cs \<Rightarrow> length cs);
            arity_ok = (case nd_children conf of None \<Rightarrow> True
                        | Some n \<Rightarrow> \<not> (n \<noteq> - 1 \<and> n \<noteq> int count));
            log0 = (if arity_ok then []
                    else [error (view_of_model f) (ExpectChildren (the (nd_children conf)) count)]);
            (si, ei) = checkSlots (\<lambda>d. error (view_of_model f) (InputRequired d))
                         (nd_input conf) (nm_input f);
            f1 = f\<lparr>nm_input := ss_data si\<rparr>;
            log1 = log0 @ ss_log si
        in case ei of
             Some e \<Rightarrow> (log1, NodeModel f1 ch, Inl e)
           | None \<Rightarrow>
               let (so, eo) = checkSlots (\<lambda>d. error (view_of_model f1) (OutputRequired d))
                                (nd_output conf) (nm_output f1);
                   f2 = f1\<lparr>nm_output := ss_data so\<rparr>;
                   log2 = log1 @ ss_log so
               in case eo of
                    Some e \<Rightarrow> (log2, NodeModel f2 ch, Inl e)
                  | None \<Rightarrow>
                      let ((args, args_ok, log_a), ea) =
                            (case nd_args conf of
                               None \<Rightarrow> (([], True, []), None)
                             | Some as \<Rightarrow> argsLoop b3 (view_of_model f2) conf as 0 ([], True, []));
                          log3 = log2 @ log_a
                      in case ea of
                           Some e \<Rightarrow> (log3, NodeModel f2 ch, Inl e)
                         | None \<Rightarrow>
                             let f3 = (case nd_args conf of None \<Rightarrow> f2
                                       | Some as \<Rightarrow> f2\<lparr>nm_args := Some args\<rparr>);
                                 ok = (arity_ok \<and> ss_ok si \<and> ss_ok so \<and> args_ok)
                             in case ch of
                                  None \<Rightarrow> (log3, NodeModel f3 (Some []), Inr ok)
                                | Some cs \<Rightarrow>
                                    (case checkChildren b3 ws cs of
                                       (log_c, cs', Inl e) \<Rightarrow>
                                         (log3 @ log_c, NodeModel f3 (Some cs'), Inl e)
                                     | (log_c, cs', Inr ok_c) \<Rightarrow>
                                         (log3 @ log_c, NodeModel f3 (Some cs'), Inr (ok \<and> ok_c))))"
| "checkChildren b3 ws [] = ([], [], Inr True)"
| "checkChildren b3 ws (c # cs) =
     (case checkNodeData b3 ws c of
        (log_c, c', Inl e) \<Rightarrow> (log_c, c' # cs, Inl e)
      | (log_c, c', Inr ok) \<Rightarrow>
          (case checkChildren b3 ws cs of
             (log_r, cs', Inl e) \<Rightarrow> (log_c @ log_r, c' # cs', Inl e)
           | (log_r, cs', Inr ok_r) \<Rightarrow> (log_c @ log_r, c' # cs', Inr (ok \<and> ok_r))))"

text \<open>\<^verbatim>\<open>checkNodeData(data)\<close> with \<^verbatim>\<open>data: NodeModel | null | undefined\<close>:
  \<^verbatim>\<open>if (!data) return false\<close>.\<close>

definition checkNodeData_opt ::
    "B3Type \<Rightarrow> Workspace \<Rightarrow> NodeModel option \<Rightarrow> diag list \<times> NodeModel option \<times> (exn + bool)" where
  "checkNodeData_opt b3 ws data =
     (case data of
        None \<Rightarrow> ([], None, Inr False)
      | Some d \<Rightarrow> (case checkNodeData b3 ws d of (ds, d', r) \<Rightarrow> (ds, Some d', r)))"

section \<open>Conversion between the stored model and the graph\<close>

definition isSubtreeRoot :: "GraphFields \<Rightarrow> bool" where
  "isSubtreeRoot data = (truthy_str (tg_path data) \<and> tg_id data \<noteq> ''1'')"

text \<open>
  \<^verbatim>\<open>createNode(data, includeChildren = true)\<close>. The slot entries are strings, so
  \<^verbatim>\<open>v ?? ""\<close> copies them; \<^verbatim>\<open>node.args\<close> starts as \<^verbatim>\<open>{}\<close> and the \<^verbatim>\<open>for ... in\<close> loop
  assigns it each own key of \<^verbatim>\<open>data.args\<close> whose value is not \<^verbatim>\<open>undefined\<close> (the members
  of \<^verbatim>\<open>Object.prototype\<close> are not enumerable). The recursive calls \<^verbatim>\<open>createNode(child)\<close>
  take the default \<^verbatim>\<open>includeChildren\<close>.
\<close>

fun createNode :: "TreeGraphData \<Rightarrow> bool \<Rightarrow> NodeModel"
  and createNodes :: "TreeGraphData list \<Rightarrow> NodeModel list" where
  "createNode (TreeGraphData data ch) includeChildren =
     NodeModel
       \<lparr>nm_id = Number (tg_id data), nm_name = tg_name data, nm_desc = tg_desc data,
        nm_args = (case tg_args data of None \<Rightarrow> None
                   | Some al \<Rightarrow> Some (foldl (\<lambda>acc (k, v). if v \<noteq> JUndefined
                                                    then assign_property k v acc else acc) [] al)),
        nm_input = tg_input data, nm_output = tg_output data,
        nm_debug = tg_debug data, nm_disabled = tg_disabled data, nm_path = tg_path data\<rparr>
       (case ch of
          None \<Rightarrow> None
        | Some cs \<Rightarrow> if \<not> isSubtreeRoot data \<and> includeChildren then Some (createNodes cs) else None)"
| "createNodes [] = []"
| "createNodes (c # cs) = createNode c True # createNodes cs"

text \<open>\<^verbatim>\<open>x || undefined\<close> on the optional fields.\<close>

definition or_undefined_str :: "string option \<Rightarrow> string option" where
  "or_undefined_str s = (if truthy_str s then s else None)"

definition or_undefined_bool :: "bool option \<Rightarrow> bool option" where
  "or_undefined_bool b = (if truthy_bool b then b else None)"

text \<open>\<^verbatim>\<open>!xs?.length\<close>.\<close>

definition no_length :: "'a list option \<Rightarrow> bool" where
  "no_length xs = (case xs of None \<Rightarrow> True | Some ys \<Rightarrow> ys = [])"

text \<open>\<^verbatim>\<open>createFileData(data, includeSubtree?)\<close>; an array or an object is truthy, so
  \<^verbatim>\<open>data.args || undefined\<close> is \<^verbatim>\<open>data.args\<close>.\<close>

fun createFileData :: "Workspace \<Rightarrow> TreeGraphData \<Rightarrow> bool \<Rightarrow> NodeModel"
  and createFileDatas :: "Workspace \<Rightarrow> TreeGraphData list \<Rightarrow> bool \<Rightarrow> NodeModel list" where
  "createFileData ws (TreeGraphData data ch) includeSubtree =
     (let conf = getNodeDef ws (tg_name data) in
      NodeModel
        \<lparr>nm_id = Number (tg_id data), nm_name = tg_name data,
         nm_desc = or_undefined_str (tg_desc data),
         nm_args = (if no_length (nd_args conf) then None else tg_args data),
         nm_input = (if no_length (nd_input conf) then None else tg_input data),
         nm_output = (if no_length (nd_output conf) then None else tg_output data),
         nm_debug = or_undefined_bool (tg_debug data),
         nm_disabled = or_undefined_bool (tg_disabled data),
         nm_path = or_undefined_str (tg_path data)\<rparr>
        (case ch of
           Some (c # cs) \<Rightarrow>
             if includeSubtree \<or> \<not> isSubtreeRoot data
             then Some (createFileDatas ws (c # cs) includeSubtree) else None
         | _ \<Rightarrow> None))"
| "createFileDatas ws [] includeSubtree = []"
| "createFileDatas ws (c # cs) includeSubtree =
     createFileData ws c includeSubtree # createFileDatas ws cs includeSubtree"

section \<open>Subtree files and the parsing state\<close>

text \<open>The two messages \<^verbatim>\<open>createTreeData\<close> shows through \<^verbatim>\<open>message.error\<close>: a circular
  reference, and a subtree file that cannot be read or parsed.\<close>

datatype message = CircularRef string | ParseSubtreeFailed string

text \<open>The module-level \<^verbatim>\<open>parsingStack\<close> and the messages shown so far.\<close>

record ParseState =
  parsingStack :: "string list"
  messages :: "message list"

text \<open>
  A file of the project: the \<^verbatim>\<open>root\<close> of the tree it parses to (\<open>None\<close> when
  \<^verbatim>\<open>JSON.parse\<close> fails or the document has no root node) and its modification time.
  The file system is a finite table from full paths to files; a path without an entry
  cannot be read.
\<close>

record FileEntry =
  fe_root :: "NodeModel option"
  fe_mtimeMs :: nat

type_synonym FileSystem = "(string \<times> FileEntry) list"

definition subtreePath :: "Workspace \<Rightarrow> string \<Rightarrow> string" where
  "subtreePath ws p = workdir ws @ ''/'' @ p"

text \<open>What the \<^verbatim>\<open>try\<close> block reads: the parsed root and \<^verbatim>\<open>statSync(...).mtimeMs\<close>;
  \<open>None\<close> when \<^verbatim>\<open>readFileSync\<close> or \<^verbatim>\<open>JSON.parse\<close> raises.\<close>

definition readSubtree :: "Workspace \<Rightarrow> FileSystem \<Rightarrow> string \<Rightarrow> (NodeModel \<times> nat) option" where
  "readSubtree ws fs p =
     (case map_of fs (subtreePath ws p) of
        None \<Rightarrow> None
      | Some e \<Rightarrow> (case fe_root e of None \<Rightarrow> None | Some r \<Rightarrow> Some (r, fe_mtimeMs e)))"

text \<open>The object literal \<^verbatim>\<open>createTreeData\<close> starts from; \<^verbatim>\<open>path\<close> is not copied.\<close>

definition newTreeData :: "Workspace \<Rightarrow> NodeFields \<Rightarrow> string option \<Rightarrow> GraphFields" where
  "newTreeData ws f parent =
     \<lparr>tg_id = toFixed (nm_id f), tg_name = nm_name f, tg_desc = nm_desc f, tg_args = nm_args f,
      tg_input = nm_input f, tg_output = nm_output f, tg_debug = nm_debug f,
      tg_disabled = nm_disabled f, tg_path = None, tg_def = getNodeDef ws (nm_name f),
      tg_parent = parent, tg_status = None, tg_lastModified = None\<rparr>"

text \<open>\<^verbatim>\<open>if (!parent) parsingStack.length = 0\<close>.\<close>

definition enterTree :: "string option \<Rightarrow> ParseState \<Rightarrow> ParseState" where
  "enterTree parent st = (if \<not> truthy_str parent then st\<lparr>parsingStack := []\<rparr> else st)"

definition push :: "string \<Rightarrow> ParseState \<Rightarrow> ParseState" where
  "push p st = st\<lparr>parsingStack := parsingStack st @ [p]\<rparr>"

definition pop :: "ParseState \<Rightarrow> ParseState" where
  "pop st = st\<lparr>parsingStack := butlast (parsingStack st)\<rparr>"

definition message_error :: "message \<Rightarrow> ParseState \<Rightarrow> ParseState" where
  "message_error m st = st\<lparr>messages := messages st @ [m]\<rparr>"

text \<open>The assignments after the recursive call on the subtree's root: the referencing
  node's \<^verbatim>\<open>path\<close>, \<^verbatim>\<open>debug\<close>, \<^verbatim>\<open>disabled\<close>, \<^verbatim>\<open>parent\<close> and \<^verbatim>\<open>id\<close> replace the root's.\<close>

fun spliceSubtree ::
    "NodeFields \<Rightarrow> string \<Rightarrow> nat \<Rightarrow> string option \<Rightarrow> TreeGraphData \<Rightarrow> TreeGraphData" where
  "spliceSubtree f p mtime parent (TreeGraphData g gch) =
     TreeGraphData (g\<lparr>tg_lastModified := Some mtime, tg_path := Some p, tg_debug := nm_debug f,
                      tg_disabled := nm_disabled f, tg_parent := parent,
                      tg_id := toFixed (nm_id f)\<rparr>) gch"

text \<open>The number of files of the file system whose path is not on the stack. Every
  descent into a subtree file pushes a path that was not on the stack and that names a
  file, so this number falls.\<close>

definition unvisited :: "Workspace \<Rightarrow> FileSystem \<Rightarrow> string list \<Rightarrow> nat" where
  "unvisited ws fs stack = card (fst ` set fs - subtreePath ws ` set stack)"

section \<open>Notions used in the statements\<close>

text \<open>The nodes of a graph in depth-first order, a node before its children and each
  child's whole subtree before the next sibling.\<close>

fun nodes :: "TreeGraphData \<Rightarrow> TreeGraphData list"
  and nodes_list :: "TreeGraphData list \<Rightarrow> TreeGraphData list" where
  "nodes (TreeGraphData f ch) =
     TreeGraphData f ch # (case ch of None \<Rightarrow> [] | Some cs \<Rightarrow> nodes_list cs)"
| "nodes_list [] = []"
| "nodes_list (c # cs) = nodes c @ nodes_list cs"

definition node_id :: "TreeGraphData \<Rightarrow> string" where
  "node_id t = tg_id (tg_fields t)"

text \<open>\<^verbatim>\<open>data.status\<close> read as a number (\<^verbatim>\<open>undefined\<close> has no bit set).\<close>

definition node_status :: "TreeGraphData \<Rightarrow> int" where
  "node_status t = (case tg_status (tg_fields t) of None \<Rightarrow> 0 | Some s \<Rightarrow> s)"

text \<open>The guard \<^verbatim>\<open>child.status && !child.disabled\<close> of \<^verbatim>\<open>refreshTreeDataId\<close>: the
  children that enter the aggregate.\<close>

definition contributing :: "TreeGraphData \<Rightarrow> bool" where
  "contributing c =
     (truthy_num (tg_status (tg_fields c)) \<and> \<not> truthy_bool (tg_disabled (tg_fields c)))"

definition agg_step :: "int \<Rightarrow> TreeGraphData \<Rightarrow> int" where
  "agg_step st c = (if contributing c then appendStatusFlag st (node_status c) else st)"

text \<open>The value of \<^verbatim>\<open>childStatus\<close> after the loop over the children.\<close>

definition childAggregate :: "TreeGraphData list \<Rightarrow> int" where
  "childAggregate cs = foldl agg_step 0 cs"

text \<open>A node's stored status is what \<^verbatim>\<open>toStatusFlag\<close> and \<^verbatim>\<open>buildStatusFlag\<close> give
  from its definition and the stored statuses of its children.\<close>

definition status_settled :: "TreeGraphData \<Rightarrow> bool" where
  "status_settled x =
     (tg_status (tg_fields x) =
        Some (case tg_children x of
                None \<Rightarrow> toStatusFlag (tg_def (tg_fields x))
              | Some cs \<Rightarrow> buildStatusFlag (tg_def (tg_fields x))
                             (toStatusFlag (tg_def (tg_fields x))) (childAggregate cs)))"

text \<open>The counter value a call of \<^verbatim>\<open>refreshTreeDataId(data, id)\<close> starts from
  (\<^verbatim>\<open>if (!id) id = 1\<close>).\<close>

definition start_id :: "int option \<Rightarrow> int" where
  "start_id ido = (case ido of None \<Rightarrow> 1 | Some i \<Rightarrow> if i = 0 then 1 else i)"


text \<open>The nodes of a stored tree, a node before its children.\<close>

fun model_nodes :: "NodeModel \<Rightarrow> NodeFields list"
  and model_nodes_list :: "NodeModel list \<Rightarrow> NodeFields list" where
  "model_nodes (NodeModel f ch) = f # (case ch of None \<Rightarrow> [] | Some cs \<Rightarrow> model_nodes_list cs)"
| "model_nodes_list [] = []"
| "model_nodes_list (c # cs) = model_nodes c @ model_nodes_list cs"

text \<open>Two optional fields agree up to the elision of an empty value: an absent field and
  an empty one (\<open>''''\<close>, \<open>false\<close>, \<open>[]\<close>, \<open>{}\<close>) are the same, and objects are compared as
  maps, whatever the order of their keys.\<close>

definition same_str :: "string option \<Rightarrow> string option \<Rightarrow> bool" where
  "same_str a b = (or_undefined_str a = or_undefined_str b)"

definition same_bool :: "bool option \<Rightarrow> bool option \<Rightarrow> bool" where
  "same_bool a b = (or_undefined_bool a = or_undefined_bool b)"

definition list_or_empty :: "'a list option \<Rightarrow> 'a list" where
  "list_or_empty xs = (case xs of None \<Rightarrow> [] | Some ys \<Rightarrow> ys)"

definition same_slots :: "string list option \<Rightarrow> string list option \<Rightarrow> bool" where
  "same_slots a b = (list_or_empty a = list_or_empty b)"

definition same_args :: "args option \<Rightarrow> args option \<Rightarrow> bool" where
  "same_args a b = (map_of (list_or_empty a) = map_of (list_or_empty b))"

definition same_fields :: "NodeFields \<Rightarrow> NodeFields \<Rightarrow> bool" where
  "same_fields f g =
     (nm_id f = nm_id g \<and> nm_name f = nm_name g \<and> same_str (nm_desc f) (nm_desc g)
      \<and> same_args (nm_args f) (nm_args g) \<and> same_slots (nm_input f) (nm_input g)
      \<and> same_slots (nm_output f) (nm_output g) \<and> same_bool (nm_debug f) (nm_debug g)
      \<and> same_bool (nm_disabled f) (nm_disabled g) \<and> same_str (nm_path f) (nm_path g))"

fun same_node :: "NodeModel \<Rightarrow> NodeModel \<Rightarrow> bool"
  and same_nodes :: "NodeModel list \<Rightarrow> NodeModel list \<Rightarrow> bool" where
  "same_node (NodeModel f None) (NodeModel g None) = same_fields f g"
| "same_node (NodeModel f None) (NodeModel g (Some ys)) = (same_fields f g \<and> ys = [])"
| "same_node (NodeModel f (Some xs)) (NodeModel g None) = (same_fields f g \<and> xs = [])"
| "same_node (NodeModel f (Some xs)) (NodeModel g (Some ys)) = (same_fields f g \<and> same_nodes xs ys)"
| "same_nodes [] [] = True"
| "same_nodes (x # xs) (y # ys) = (same_node x y \<and> same_nodes xs ys)"
| "same_nodes [] (y # ys) = False"
| "same_nodes (x # xs) [] = False"

text \<open>A node carries arguments, inputs and outputs only where its definition declares some.\<close>

definition schema_covers :: "Workspace \<Rightarrow> NodeFields \<Rightarrow> bool" where
  "schema_covers ws f =
     (let conf = getNodeDef ws (nm_name f)
      in (no_length (nd_args conf) \<longrightarrow> no_length (nm_args f))
         \<and> (no_length (nd_input conf) \<longrightarrow> no_length (nm_input f))
         \<and> (no_length (nd_output conf) \<longrightarrow> no_length (nm_output f)))"

definition no_path :: "NodeFields \<Rightarrow> bool" where
  "no_path f = (\<not> truthy_str (nm_path f))"

section \<open>Example data\<close>

definition plainDef :: "string \<Rightarrow> string list option \<Rightarrow> NodeDef" where
  "plainDef n st = \<lparr>nd_name = n, nd_desc = None, nd_args = None, nd_input = None,
                     nd_output = None, nd_children = None, nd_status = st\<rparr>"

definition graphNode :: "NodeDef \<Rightarrow> TreeGraphData list option \<Rightarrow> TreeGraphData" where
  "graphNode d ch = TreeGraphData
     \<lparr>tg_id = ''0'', tg_name = nd_name d, tg_desc = None, tg_args = None, tg_input = None,
      tg_output = None, tg_debug = None, tg_disabled = None, tg_path = None, tg_def = d,
      tg_parent = None, tg_status = None, tg_lastModified = None\<rparr> ch"

text \<open>A parent with two leaf children; \<open>ds\<close> is the parent's \<^verbatim>\<open>status\<close> list.\<close>

definition two_children :: "string list option \<Rightarrow> NodeDef \<Rightarrow> NodeDef \<Rightarrow> TreeGraphData" where
  "two_children ds da db = graphNode (plainDef ''Parent'' ds)
                             (Some [graphNode da None, graphNode db None])"

text \<open>A \<^verbatim>\<open>Sequence\<close> whose definition has no \<^verbatim>\<open>status\<close> list, over one child that can
  only succeed.\<close>

definition leak_tree :: TreeGraphData where
  "leak_tree = graphNode (plainDef ''Sequence'' None)
                 (Some [graphNode (plainDef ''Log'' (Some [''success''])) None])"

text \<open>The scenario of the specification: a \<^verbatim>\<open>Sequence\<close> over \<^verbatim>\<open>Log\<close> and \<^verbatim>\<open>Wait\<close>.\<close>

definition scenario_tree :: TreeGraphData where
  "scenario_tree = two_children None (plainDef ''Log'' None) (plainDef ''Wait'' None)"

definition view0 :: NodeView where
  "view0 = \<lparr>nv_id = ''1'', nv_name = ''Move'', nv_args = Some [(''pos'', JNum 1)], nv_input = None\<rparr>"

definition arg_of_type :: "string \<Rightarrow> NodeArg" where
  "arg_of_type ty = \<lparr>na_name = ''pos'', na_type = ty, na_options = None, na_oneof = None\<rparr>"





definition root_with_path :: TreeGraphData where
  "root_with_path = TreeGraphData
     \<lparr>tg_id = ''1'', tg_name = ''Sequence'', tg_desc = None, tg_args = None, tg_input = None,
      tg_output = None, tg_debug = None, tg_disabled = None, tg_path = Some ''sub/tree.json'',
      tg_def = plainDef ''Sequence'' None, tg_parent = None, tg_status = None,
      tg_lastModified = None\<rparr>
     (Some [graphNode (plainDef ''Log'' None) None])"

text \<open>A registry that knows \<^verbatim>\<open>Sequence\<close> only.\<close>

definition small_registry :: Workspace where
  "small_registry =
     \<lparr>getNodeDef = (\<lambda>n. if n = ''Sequence'' then plainDef ''Sequence'' None
                         else unknownNodeDef specB3Type),
      workdir = ''/proj''\<rparr>"

definition modelNode :: "int \<Rightarrow> string \<Rightarrow> NodeModel list option \<Rightarrow> NodeModel" where
  "modelNode i n ch = NodeModel
     \<lparr>nm_id = Num i, nm_name = n, nm_desc = None, nm_args = None, nm_input = None,
      nm_output = None, nm_debug = None, nm_disabled = None, nm_path = None\<rparr> ch"

definition empty_state :: ParseState where
  "empty_state = \<lparr>parsingStack = [], messages = []\<rparr>"

text \<open>The tree of \<^verbatim>\<open>createProject\<close>: a \<^verbatim>\<open>Sequence\<close> over \<^verbatim>\<open>Log{str: "hello"}\<close> and
  \<^verbatim>\<open>Wait{time: 1}\<close>, and a registry that declares the two arguments.\<close>

definition argDef :: "string \<Rightarrow> string \<Rightarrow> NodeArg" where
  "argDef n ty = \<lparr>na_name = n, na_type = ty, na_options = None, na_oneof = None\<rparr>"

definition project_registry :: Workspace where
  "project_registry =
     \<lparr>getNodeDef = (\<lambda>n.
         if n = ''Sequence'' then plainDef ''Sequence'' None
         else if n = ''Log'' then (plainDef ''Log'' None)\<lparr>nd_args := Some [argDef ''str'' ''string'']\<rparr>
         else if n = ''Wait'' then (plainDef ''Wait'' None)\<lparr>nd_args := Some [argDef ''time'' ''float'']\<rparr>
         else unknownNodeDef specB3Type),
      workdir = ''/proj''\<rparr>"

definition withArgs :: "args \<Rightarrow> NodeModel \<Rightarrow> NodeModel" where
  "withArgs a m = NodeModel ((nm_fields m)\<lparr>nm_args := Some a\<rparr>) (nm_children m)"

definition withInput :: "string list \<Rightarrow> NodeModel \<Rightarrow> NodeModel" where
  "withInput i m = NodeModel ((nm_fields m)\<lparr>nm_input := Some i\<rparr>) (nm_children m)"

definition example_model :: NodeModel where
  "example_model = modelNode 1 ''Sequence''
     (Some [withArgs [(''str'', JStr ''hello'')] (modelNode 2 ''Log'' None),
            withArgs [(''time'', JNum 1)] (modelNode 3 ''Wait'' None)])"

text \<open>A node that references the subtree file \<open>p\<close>, and a tree file whose root has one
  child, a reference to \<open>p\<close>.\<close>

definition refFields :: "string \<Rightarrow> NodeFields" where
  "refFields p = \<lparr>nm_id = Num 2, nm_name = ''Subtree'', nm_desc = None, nm_args = None,
                  nm_input = None, nm_output = None, nm_debug = None, nm_disabled = None,
                  nm_path = Some p\<rparr>"

definition rootFields :: NodeFields where
  "rootFields = \<lparr>nm_id = Num 1, nm_name = ''Sequence'', nm_desc = None, nm_args = None,
                 nm_input = None, nm_output = None, nm_debug = None, nm_disabled = None,
                 nm_path = None\<rparr>"

definition fileRoot :: "string \<Rightarrow> NodeModel" where
  "fileRoot p = NodeModel rootFields (Some [NodeModel (refFields p) None])"

text \<open>File \<open>a\<close> references file \<open>b\<close>, and file \<open>b\<close> references file \<open>a\<close>.\<close>

definition two_files :: "Workspace \<Rightarrow> string \<Rightarrow> string \<Rightarrow> FileSystem" where
  "two_files ws a b =
     [(subtreePath ws a, \<lparr>fe_root = Some (fileRoot b), fe_mtimeMs = 10\<rparr>),
      (subtreePath ws b, \<lparr>fe_root = Some (fileRoot a), fe_mtimeMs = 20\<rparr>)]"

text \<open>The graph of file \<open>a\<close>: its root; below it the root of \<open>b\<close>, spliced in for the
  reference; below that the root of \<open>a\<close> again; and below that the reference to \<open>b\<close>,
  left unresolved.\<close>

definition cut_node :: "Workspace \<Rightarrow> string \<Rightarrow> TreeGraphData" where
  "cut_node ws b =
     TreeGraphData ((newTreeData ws (refFields b) (Some ''1''))\<lparr>tg_path := Some b\<rparr>) None"

definition spliced_file :: "Workspace \<Rightarrow> string \<Rightarrow> nat \<Rightarrow> TreeGraphData \<Rightarrow> TreeGraphData" where
  "spliced_file ws p mtime child =
     spliceSubtree (refFields p) p mtime (Some ''1'')
       (TreeGraphData (newTreeData ws rootFields (Some ''2'')) (Some [child]))"

definition cycle_graph :: "Workspace \<Rightarrow> string \<Rightarrow> string \<Rightarrow> TreeGraphData" where
  "cycle_graph ws a b =
     TreeGraphData (newTreeData ws rootFields None)
       (Some [spliced_file ws b 20 (spliced_file ws a 10 (cut_node ws b))])"

section \<open>The subtree resolver\<close>

text \<open>
  \<^verbatim>\<open>createTreeData(node, parent?)\<close>, with the parsing stack and the messages passed in
  and out. \<open>createChildren\<close> is the \<^verbatim>\<open>forEach\<close> over \<^verbatim>\<open>node.children\<close>.
\<close>

function createTreeData ::
    "Workspace \<Rightarrow> FileSystem \<Rightarrow> ParseState \<Rightarrow> NodeModel \<Rightarrow> string option
     \<Rightarrow> ParseState \<times> TreeGraphData"
  and createChildren ::
    "Workspace \<Rightarrow> FileSystem \<Rightarrow> ParseState \<Rightarrow> NodeModel list \<Rightarrow> string
     \<Rightarrow> ParseState \<times> TreeGraphData list"
  where
  "createTreeData ws fs st (NodeModel f ch) parent =
     (let treeData = newTreeData ws f parent;
          st1 = enterTree parent st
      in case ch of
           Some cs \<Rightarrow>
             (case createChildren ws fs st1 cs (tg_id treeData) of
                (st2, ts) \<Rightarrow> (st2, TreeGraphData treeData (Some ts)))
         | None \<Rightarrow>
             (case nm_path f of
                None \<Rightarrow> (st1, TreeGraphData treeData None)
              | Some p \<Rightarrow>
                  if p = [] then (st1, TreeGraphData treeData None)
                  else if p \<in> set (parsingStack st1)
                  then (message_error (CircularRef p) st1,
                        TreeGraphData (treeData\<lparr>tg_path := Some p\<rparr>) None)
                  else
                    (case readSubtree ws fs p of
                       None \<Rightarrow>
                         (pop (message_error (ParseSubtreeFailed p) (push p st1)),
                          TreeGraphData treeData None)
                     | Some (rt, mtime) \<Rightarrow>
                         (case createTreeData ws fs (push p st1) rt (Some (tg_id treeData)) of
                            (st2, t) \<Rightarrow> (pop st2, spliceSubtree f p mtime parent t)))))"
| "createChildren ws fs st [] pid = (st, [])"
| "createChildren ws fs st (c # cs) pid =
     (case createTreeData ws fs st c (Some pid) of
        (st1, t) \<Rightarrow>
          (case createChildren ws fs st1 cs pid of
             (st2, ts) \<Rightarrow> (st2, t # ts)))"
  by pat_completeness auto

section \<open>Termination of the subtree resolver\<close>

lemma digits_nat_nonempty: "digits_nat n \<noteq> []"
  by (subst digits_nat.simps) simp

lemma toFixed_nonempty: "toFixed n \<noteq> []"
  by (cases n) (simp_all add: int_toString_def digits_nat_nonempty)

lemma enterTree_Some_toFixed [simp]: "enterTree (Some (toFixed n)) st = st"
  by (simp add: enterTree_def truthy_str_def toFixed_nonempty)

lemma parsingStack_simps [simp]:
  "parsingStack (push p st) = parsingStack st @ [p]"
  "parsingStack (pop st) = butlast (parsingStack st)"
  "parsingStack (message_error m st) = parsingStack st"
  by (simp_all add: push_def pop_def message_error_def)

lemma createTreeData_balanced_dom:
  "createTreeData_createChildren_dom (Inl (ws, fs, st, node, parent)) \<Longrightarrow>
     parsingStack (fst (createTreeData ws fs st node parent)) = parsingStack (enterTree parent st)"
  "createTreeData_createChildren_dom (Inr (ws, fs, st, cs, pid)) \<Longrightarrow>
     pid \<noteq> [] \<longrightarrow> parsingStack (fst (createChildren ws fs st cs pid)) = parsingStack st"
proof (induct rule: createTreeData_createChildren.pinduct)
  case (1 ws fs st f ch parent)
  show ?case
  proof (cases ch)
    case (Some cs)
    obtain st2 ts
      where r: "createChildren ws fs (enterTree parent st) cs (toFixed (nm_id f)) = (st2, ts)"
      by (cases "createChildren ws fs (enterTree parent st) cs (toFixed (nm_id f))")
    with 1(3)[OF refl refl Some] 1(1) Some show ?thesis
      by (simp add: createTreeData.psimps newTreeData_def toFixed_nonempty Let_def)
  next
    case None
    show ?thesis
    proof (cases "nm_path f")
      case n: None
      with None 1(1) show ?thesis by (simp add: createTreeData.psimps Let_def)
    next
      case (Some p)
      show ?thesis
      proof (cases "p = [] \<or> p \<in> set (parsingStack (enterTree parent st))")
        case True
        with None Some 1(1) show ?thesis by (auto simp: createTreeData.psimps Let_def)
      next
        case False
        show ?thesis
        proof (cases "readSubtree ws fs p")
          case n: None
          with False None Some 1(1) show ?thesis by (simp add: createTreeData.psimps Let_def)
        next
          case s: (Some a)
          obtain rt mtime where a: "a = (rt, mtime)" by (cases a)
          from False have "p \<noteq> []" "p \<notin> set (parsingStack (enterTree parent st))" by auto
          from 1(2)[OF refl refl None Some this s a[symmetric]]
          show ?thesis using False None Some 1(1) s a
            by (auto simp: createTreeData.psimps newTreeData_def Let_def split: prod.splits)
        qed
      qed
    qed
  qed
next
  case (2 ws fs st pid)
  then show ?case by (simp add: createChildren.psimps)
next
  case (3 ws fs st c cs pid)
  show ?case
  proof
    assume pid: "pid \<noteq> []"
    obtain st1 t where r: "createTreeData ws fs st c (Some pid) = (st1, t)"
      by (cases "createTreeData ws fs st c (Some pid)")
    from 3(2) r pid have "parsingStack st1 = parsingStack st"
      by (simp add: enterTree_def truthy_str_def)
    with 3(3)[OF r[symmetric]] pid 3(1) r
    show "parsingStack (fst (createChildren ws fs st (c # cs) pid)) = parsingStack st"
      by (auto simp: createChildren.psimps split: prod.splits)
  qed
qed

lemma unvisited_push:
  assumes "readSubtree ws fs p \<noteq> None" "p \<notin> set stack"
  shows "unvisited ws fs (stack @ [p]) < unvisited ws fs stack"
proof -
  from assms(1) have "map_of fs (subtreePath ws p) \<noteq> None"
    by (auto simp: readSubtree_def split: option.splits)
  then have k: "subtreePath ws p \<in> fst ` set fs" by (simp add: map_of_eq_None_iff)
  have inj: "subtreePath ws p \<notin> subtreePath ws ` set stack"
    using assms(2) by (auto simp: subtreePath_def)
  have "fst ` set fs - subtreePath ws ` set (stack @ [p])
          \<subset> fst ` set fs - subtreePath ws ` set stack"
    using k inj by auto
  then show ?thesis unfolding unvisited_def by (intro psubset_card_mono) auto
qed

termination createTreeData
  apply (relation "inv_image (less_than <*lex*> less_than)
    (\<lambda>x. case x of
       Inl (ws, fs, st, node, parent) \<Rightarrow>
         (unvisited ws fs (parsingStack (enterTree parent st)), size (node :: NodeModel))
     | Inr (ws, fs, st, cs, pid) \<Rightarrow>
         (unvisited ws fs (parsingStack (enterTree (Some pid) st)),
          size_list size (cs :: NodeModel list)))")
  subgoal by (intro wf_inv_image wf_lex_prod wf_less_than)
  subgoal by (simp add: newTreeData_def unvisited_push)
  subgoal by (simp add: newTreeData_def)
  subgoal by simp
  subgoal for ws fs st c cs pid x y
    using createTreeData_balanced_dom(1)[of ws fs st c "Some pid"] fst_conv[of x y]
    by (auto simp: enterTree_def)
  done

declare createTreeData.simps [simp del]

section \<open>Printing and reading ids\<close>

lemma small_digit: "d < 10 \<Longrightarrow> d \<in> {0, 1, 2, 3, 4, 5, 6, 7, 8, 9::nat}"
  by auto

lemma is_digit_digit_char: "d < 10 \<Longrightarrow> is_digit (digit_char d)"
  by (drule small_digit) (auto simp: is_digit_def digit_char_def)

lemma digit_val_digit_char: "d < 10 \<Longrightarrow> digit_val (digit_char d) = d"
  by (drule small_digit) (auto simp: digit_val_def digit_char_def)

lemma digits_nat_all_digits: "list_all is_digit (digits_nat n)"
proof (induction n rule: digits_nat.induct)
  case (1 n)
  show ?case
  proof (cases "n < 10")
    case True
    then show ?thesis by (subst digits_nat.simps) (simp add: is_digit_digit_char)
  next
    case False
    with 1 show ?thesis by (subst digits_nat.simps) (simp add: is_digit_digit_char)
  qed
qed

lemma nat_of_digits_snoc: "nat_of_digits (s @ [c]) = 10 * nat_of_digits s + digit_val c"
  by (simp add: nat_of_digits_def)

lemma nat_of_digits_digits_nat: "nat_of_digits (digits_nat n) = n"
proof (induction n rule: digits_nat.induct)
  case (1 n)
  show ?case
  proof (cases "n < 10")
    case True
    then show ?thesis
      by (subst digits_nat.simps) (simp add: nat_of_digits_def digit_val_digit_char)
  next
    case False
    with 1 have "nat_of_digits (digits_nat (n div 10)) = n div 10" by simp
    with False show ?thesis
      by (subst digits_nat.simps) (simp add: nat_of_digits_snoc digit_val_digit_char)
  qed
qed

lemma unsigned_int_digits_nat: "unsigned_int (digits_nat n) = Num (int n)"
  by (simp add: unsigned_int_def digits_nat_nonempty digits_nat_all_digits
      nat_of_digits_digits_nat)

lemma is_digit_not_ws: "is_digit c \<Longrightarrow> \<not> is_ws c"
  by (auto simp: is_digit_def is_ws_def)

lemma is_digit_not_sign: "is_digit c \<Longrightarrow> c \<noteq> CHR ''-'' \<and> c \<noteq> CHR ''+''"
  by (auto simp: is_digit_def)

lemma trim_id:
  assumes "s \<noteq> []" "\<not> is_ws (hd s)" "\<not> is_ws (last s)"
  shows "trim s = s"
proof -
  from assms have "dropWhile is_ws s = s" by (cases s) auto
  moreover from assms have "dropWhile is_ws (rev s) = rev s"
    by (cases "rev s") (auto simp: last_rev hd_rev)
  ultimately show ?thesis by (simp add: trim_def)
qed

lemma digits_hd_last:
  "list_all is_digit s \<Longrightarrow> s \<noteq> [] \<Longrightarrow> is_digit (hd s) \<and> is_digit (last s)"
  by (cases s) (auto simp: list_all_iff)

lemma Number_int_toString: "Number (int_toString i) = Num i"
proof (cases "i < 0")
  case True
  let ?d = "digits_nat (nat (- i))"
  have d: "?d \<noteq> []" "list_all is_digit ?d"
    by (simp_all add: digits_nat_nonempty digits_nat_all_digits)
  then have "\<not> is_ws (last ?d)" using digits_hd_last is_digit_not_ws by blast
  then have "trim (CHR ''-'' # ?d) = CHR ''-'' # ?d"
    using d by (intro trim_id) (auto simp: is_ws_def)
  with True show ?thesis
    by (simp add: Number_def int_toString_def unsigned_int_digits_nat)
next
  case False
  let ?d = "digits_nat (nat i)"
  have d: "?d \<noteq> []" "list_all is_digit ?d"
    by (simp_all add: digits_nat_nonempty digits_nat_all_digits)
  then have h: "is_digit (hd ?d)" "is_digit (last ?d)" using digits_hd_last by blast+
  then have t: "trim ?d = ?d" using d by (intro trim_id) (auto dest: is_digit_not_ws)
  obtain c r where cr: "?d = c # r" using d by (cases ?d) auto
  with h have "c \<noteq> CHR ''-''" "c \<noteq> CHR ''+''" using is_digit_not_sign by auto
  with False t cr show ?thesis
    using unsigned_int_digits_nat [of "nat i"]
    by (simp add: Number_def int_toString_def)
qed

lemma inj_int_toString: "inj int_toString"
  by (metis Number_int_toString injI number.inject)

lemma Number_toFixed: "Number (toFixed n) = n"
proof (cases n)
  case (Num i)
  then show ?thesis by (simp add: Number_int_toString)
next
  case NaN
  then show ?thesis by (simp add: Number_def trim_def is_ws_def unsigned_int_def is_digit_def)
qed

section \<open>Id assignment\<close>

lemma node_ids_set_parent: "map node_id (nodes (set_parent p c)) = map node_id (nodes c)"
  by (cases c) (simp add: node_id_def)

lemma length_nodes_set_parent: "length (nodes (set_parent p c)) = length (nodes c)"
  by (cases c) simp

lemma upto_append_shift: "(a::int) \<le> b + 1 \<Longrightarrow> b \<le> c \<Longrightarrow> [a..b] @ [b + 1..c] = [a..c]"
  by (metis add.commute add_diff_cancel_left' upto_split2 upto_rec1 append_Nil linorder_not_less
      upto_empty zle_add1_eq_le le_less)

lemma refresh_ids_aux:
  "(\<forall>n t'. 1 \<le> start_id ido \<longrightarrow> refreshTreeDataId t ido = (n, t') \<longrightarrow>
      n = start_id ido + int (length (nodes t)) \<and>
      map node_id (nodes t') = map int_toString [start_id ido..n - 1])"
  "(\<forall>n cst' cs'. 1 \<le> idn \<longrightarrow> refreshChildren pid cs idn cst = (n, cst', cs') \<longrightarrow>
      n = idn + int (length (nodes_list cs)) \<and>
      map node_id (nodes_list cs') = map int_toString [idn..n - 1])"
proof (induction t ido and pid cs idn cst rule: refreshTreeDataId_refreshChildren.induct)
  case (1 f ch ido)
  show ?case
  proof (cases ch)
    case None
    then show ?thesis by (auto simp: Let_def start_id_def node_id_def split: option.splits)
  next
    case (Some cs)
    show ?thesis
    proof (intro allI impI)
      fix n t'
      assume s: "1 \<le> start_id ido"
        and r: "refreshTreeDataId (TreeGraphData f ch) ido = (n, t')"
      let ?i = "start_id ido"
      let ?f1 = "f\<lparr>tg_id := int_toString ?i, tg_status := Some (toStatusFlag (tg_def f))\<rparr>"
      obtain n2 cst cs' where rc: "refreshChildren (tg_id ?f1) cs (?i + 1) 0 = (n2, cst, cs')"
        by (cases "refreshChildren (tg_id ?f1) cs (?i + 1) 0") auto
      from 1(1)[OF refl refl refl refl Some, unfolded start_id_def[symmetric]] rc s
      have ih: "n2 = ?i + 1 + int (length (nodes_list cs))"
        "map node_id (nodes_list cs') = map int_toString [?i + 1..n2 - 1]"
        by (auto simp: start_id_def)
      from r rc Some have n: "n = n2" and t': "t' = TreeGraphData
             (?f1\<lparr>tg_status := Some (buildStatusFlag (tg_def ?f1) (toStatusFlag (tg_def f)) cst)\<rparr>)
             (Some cs')"
        by (auto simp: Let_def start_id_def)
      have "[?i..n2 - 1] = ?i # [?i + 1..n2 - 1]" using ih(1) by (simp add: upto_rec1)
      with ih n t' Some show "n = ?i + int (length (nodes (TreeGraphData f ch))) \<and>
         map node_id (nodes t') = map int_toString [?i..n - 1]"
        by (simp add: node_id_def)
    qed
  qed
next
  case (2 pid idn childStatus)
  then show ?case by simp
next
  case (3 pid c cs idn childStatus)
  show ?case
  proof (intro allI impI)
    fix n cst' cs'
    assume s: "1 \<le> idn" and r: "refreshChildren pid (c # cs) idn childStatus = (n, cst', cs')"
    obtain n1 c0 where r1: "refreshTreeDataId c (Some idn) = (n1, c0)"
      by (cases "refreshTreeDataId c (Some idn)") auto
    from s have si: "start_id (Some idn) = idn" by (auto simp: start_id_def)
    from 3(1) r1 s si have ih1: "n1 = idn + int (length (nodes c))"
      "map node_id (nodes c0) = map int_toString [idn..n1 - 1]" by auto
    let ?c' = "set_parent pid c0"
    let ?cst = "(if truthy_num (tg_status (tg_fields ?c')) \<and> \<not> truthy_bool (tg_disabled (tg_fields ?c'))
                 then appendStatusFlag childStatus (the (tg_status (tg_fields ?c')))
                 else childStatus)"
    obtain n2 cst2 cs2 where r2: "refreshChildren pid cs n1 ?cst = (n2, cst2, cs2)"
      by (cases "refreshChildren pid cs n1 ?cst") auto
    have n1: "1 \<le> n1" using ih1 s by simp
    from 3(2)[OF r1[symmetric] refl refl] r2 n1
    have ih2: "n2 = n1 + int (length (nodes_list cs))"
      "map node_id (nodes_list cs2) = map int_toString [n1..n2 - 1]" by auto
    from r r1 r2 have e: "n = n2" "cs' = ?c' # cs2" by (auto simp: Let_def)
    have "[idn..n1 - 1] @ [n1..n2 - 1] = [idn..n2 - 1]"
      using upto_append_shift[of idn "n1 - 1" "n2 - 1"] ih1(1) ih2(1) by simp
    then have "map int_toString [idn..n1 - 1] @ map int_toString [n1..n2 - 1]
                 = map int_toString [idn..n2 - 1]"
      by (metis map_append)
    with e ih1 ih2 show "n = idn + int (length (nodes_list (c # cs))) \<and>
       map node_id (nodes_list cs') = map int_toString [idn..n - 1]"
      by (simp add: node_ids_set_parent)
  qed
qed

text \<open>
  Claim C2. \<^verbatim>\<open>refreshTreeDataId(root)\<close> gives the nodes, read in depth-first order
  (a node, then the whole subtree of each child in turn), the ids \<^verbatim>\<open>"1"\<close>, \<^verbatim>\<open>"2"\<close>, ...,
  \<^verbatim>\<open>"N"\<close> in that order, where \<open>N\<close> is the number of nodes; no id is used twice; the call
  returns \<open>N + 1\<close>. The numbering runs over whatever \<^verbatim>\<open>children\<close> arrays the graph holds.
\<close>

theorem refreshTreeDataId_numbers_nodes:
  "map node_id (nodes (snd (refreshTreeDataId t None)))
     = map int_toString [1..int (length (nodes t))]
   \<and> distinct (map node_id (nodes (snd (refreshTreeDataId t None))))
   \<and> fst (refreshTreeDataId t None) = int (length (nodes t)) + 1"
proof -
  obtain n t' where r: "refreshTreeDataId t None = (n, t')"
    by (cases "refreshTreeDataId t None")
  have s: "start_id None = 1" by (simp add: start_id_def)
  from refresh_ids_aux(1)[of None t] r s
  have n: "n = 1 + int (length (nodes t))"
    and ids: "map node_id (nodes t') = map int_toString [1..n - 1]" by auto
  have "distinct (map int_toString [1..n - 1])"
    by (simp add: distinct_map inj_int_toString inj_on_def injD[OF inj_int_toString])
  with n ids r show ?thesis by simp
qed

theorem refreshTreeDataId_numbers_nodes_witness:
  "map node_id (nodes (snd (refreshTreeDataId scenario_tree None))) = [''1'', ''2'', ''3'']
   \<and> fst (refreshTreeDataId scenario_tree None) = 4"
proof -
  have l: "length (nodes scenario_tree) = 3"
    by (simp add: scenario_tree_def two_children_def graphNode_def)
  have m: "map int_toString [1..3] = [''1'', ''2'', ''3'']"
    by code_simp
  from refreshTreeDataId_numbers_nodes[of scenario_tree] l m show ?thesis by simp
qed

section \<open>Status flags\<close>

lemma status_settled_set_parent: "status_settled (set_parent p c) = status_settled c"
  by (cases c) (simp add: status_settled_def split: option.splits)

lemma nodes_set_parent: "nodes (set_parent p c) = set_parent p c # tl (nodes c)"
  by (cases c) simp

lemma nodes_hd: "nodes c = c # tl (nodes c)"
  by (cases c) simp

lemma all_nodes_set_parent:
  "list_all status_settled (nodes (set_parent p c)) = list_all status_settled (nodes c)"
  by (subst nodes_set_parent, subst (2) nodes_hd) (simp add: status_settled_set_parent)

lemma refresh_settled_aux:
  "list_all status_settled (nodes (snd (refreshTreeDataId t ido)))"
  "(case refreshChildren pid cs idn cst of (n, cst', cs') \<Rightarrow>
      cst' = foldl agg_step cst cs' \<and> list_all status_settled (nodes_list cs'))"
proof (induction t ido and pid cs idn cst rule: refreshTreeDataId_refreshChildren.induct)
  case (1 f ch ido)
  show ?case
  proof (cases ch)
    case None
    then show ?thesis by (simp add: Let_def status_settled_def)
  next
    case (Some cs)
    then show ?thesis
      using 1(1)[OF refl refl refl refl Some]
      by (auto simp: Let_def status_settled_def childAggregate_def split: prod.splits)
  qed
next
  case (2 pid idn childStatus)
  then show ?case by simp
next
  case (3 pid c cs idn childStatus)
  obtain n1 c0 where r1: "refreshTreeDataId c (Some idn) = (n1, c0)"
    by (cases "refreshTreeDataId c (Some idn)") auto
  let ?c' = "set_parent pid c0"
  let ?cst = "(if truthy_num (tg_status (tg_fields ?c')) \<and> \<not> truthy_bool (tg_disabled (tg_fields ?c'))
               then appendStatusFlag childStatus (the (tg_status (tg_fields ?c')))
               else childStatus)"
  have a: "?cst = agg_step childStatus ?c'"
    by (auto simp: agg_step_def contributing_def node_status_def truthy_num_def
        split: option.splits)
  from 3(1) r1 have s1: "list_all status_settled (nodes ?c')"
    by (simp add: all_nodes_set_parent)
  from 3(2)[OF r1[symmetric] refl refl]
  show ?case using r1 s1 a by (auto simp: Let_def split: prod.splits)
qed

lemma settled_node:
  assumes "x \<in> set (nodes (snd (refreshTreeDataId t ido)))"
  shows "status_settled x"
  using refresh_settled_aux(1)[of t ido] assms by (simp add: list_all_iff)

lemma drop_bit_and_one: "drop_bit n (c::int) AND 1 = (if bit c n then 1 else 0)"
  by (simp add: and_one_eq bit_iff_odd_drop_bit mod_2_eq_odd)

lemma bit_two_pow: "bit (2 ^ m :: int) n \<longleftrightarrow> n = m"
  by (auto simp: bit_exp_iff)

lemma bit_push_bit_if: "bit (push_bit m (if b then 1 else (0::int))) n \<longleftrightarrow> b \<and> n = m"
  by (auto simp: bit_simps)

lemma flags_distinct:
  "SUCCESS_ZERO \<noteq> SUCCESS" "SUCCESS_ZERO \<noteq> FAILURE" "SUCCESS_ZERO \<noteq> RUNNING"
  "FAILURE_ZERO \<noteq> SUCCESS" "FAILURE_ZERO \<noteq> FAILURE" "FAILURE_ZERO \<noteq> RUNNING"
  "SUCCESS \<noteq> FAILURE" "SUCCESS \<noteq> RUNNING" "FAILURE \<noteq> RUNNING" "SUCCESS_ZERO \<noteq> FAILURE_ZERO"
  by (simp_all add: SUCCESS_def FAILURE_def RUNNING_def SUCCESS_ZERO_def FAILURE_ZERO_def)

lemma bit_appendStatusFlag:
  "bit (appendStatusFlag st c) n \<longleftrightarrow>
     bit st n \<or> bit c n \<or> (n = SUCCESS_ZERO \<and> \<not> bit c SUCCESS)
       \<or> (n = FAILURE_ZERO \<and> \<not> bit c FAILURE)"
  by (auto simp: appendStatusFlag_def Let_def drop_bit_and_one bit_or_iff bit_two_pow)

lemma bit_foldl_agg_step:
  "bit (foldl agg_step st cs) n \<longleftrightarrow>
     bit st n \<or> (\<exists>c\<in>set cs. contributing c \<and>
        (bit (node_status c) n \<or> (n = SUCCESS_ZERO \<and> \<not> bit (node_status c) SUCCESS)
          \<or> (n = FAILURE_ZERO \<and> \<not> bit (node_status c) FAILURE)))"
  by (induction cs arbitrary: st) (auto simp: agg_step_def bit_appendStatusFlag)

lemma bit_childAggregate:
  "bit (childAggregate cs) n \<longleftrightarrow>
     (\<exists>c\<in>set cs. contributing c \<and>
        (bit (node_status c) n \<or> (n = SUCCESS_ZERO \<and> \<not> bit (node_status c) SUCCESS)
          \<or> (n = FAILURE_ZERO \<and> \<not> bit (node_status c) FAILURE)))"
  by (simp add: childAggregate_def bit_foldl_agg_step)

lemma bit_toStatusFlag_step:
  "bit (toStatusFlag_step st s) n \<longleftrightarrow>
     bit st n \<or> (s = ''success'' \<and> n = SUCCESS) \<or> (s = ''failure'' \<and> n = FAILURE)
       \<or> (s = ''running'' \<and> n = RUNNING)"
  by (auto simp: toStatusFlag_step_def bit_or_iff bit_two_pow)

lemma bit_foldl_toStatusFlag_step:
  "bit (foldl toStatusFlag_step st ss) n \<longleftrightarrow>
     bit st n \<or> (''success'' \<in> set ss \<and> n = SUCCESS) \<or> (''failure'' \<in> set ss \<and> n = FAILURE)
       \<or> (''running'' \<in> set ss \<and> n = RUNNING)"
  by (induction ss arbitrary: st) (auto simp: bit_toStatusFlag_step)

lemma bit_toStatusFlag:
  "bit (toStatusFlag d) n \<longleftrightarrow>
     (\<exists>ss. nd_status d = Some ss \<and>
        ((''success'' \<in> set ss \<and> n = SUCCESS) \<or> (''failure'' \<in> set ss \<and> n = FAILURE)
          \<or> (''running'' \<in> set ss \<and> n = RUNNING)))"
  by (cases "nd_status d") (auto simp: toStatusFlag_def bit_foldl_toStatusFlag_step)

lemma bit_buildStatusFlag_step:
  "bit (buildStatusFlag_step cst st s) n \<longleftrightarrow>
     (if s = ''!success'' then bit st n \<or> (bit cst FAILURE \<and> n = SUCCESS)
      else if s = ''!failure'' then bit st n \<or> (bit cst SUCCESS \<and> n = FAILURE)
      else if s = ''|success'' then bit st n \<or> (bit cst SUCCESS \<and> n = SUCCESS)
      else if s = ''|failure'' then bit st n \<or> (bit cst FAILURE \<and> n = FAILURE)
      else if s = ''|running'' then bit st n \<or> (bit cst RUNNING \<and> n = RUNNING)
      else if s = ''&success'' then
        (if bit cst SUCCESS_ZERO then bit st n \<and> n \<noteq> SUCCESS
         else bit st n \<or> (bit cst SUCCESS \<and> n = SUCCESS))
      else if s = ''&failure'' then
        (if bit cst FAILURE_ZERO then bit st n \<and> n \<noteq> FAILURE
         else bit st n \<or> (bit cst FAILURE \<and> n = FAILURE))
      else bit st n)"
  by (simp add: buildStatusFlag_step_def Let_def drop_bit_and_one bit_or_iff bit_and_iff
      bit_not_iff bit_two_pow bit_push_bit_if)

lemma foldl_build_keeps_clear:
  "n \<noteq> SUCCESS \<Longrightarrow> n \<noteq> FAILURE \<Longrightarrow> n \<noteq> RUNNING \<Longrightarrow> \<not> bit st n \<Longrightarrow>
     \<not> bit (foldl (buildStatusFlag_step cst) st ss) n"
  by (induction ss arbitrary: st) (simp_all add: bit_buildStatusFlag_step)

lemma step_keeps_success_clear:
  "bit cst SUCCESS_ZERO \<Longrightarrow> \<not> bit st SUCCESS \<Longrightarrow> a \<noteq> ''|success'' \<Longrightarrow> a \<noteq> ''!success'' \<Longrightarrow>
     \<not> bit (buildStatusFlag_step cst st a) SUCCESS"
  by (simp add: bit_buildStatusFlag_step flags_distinct flags_distinct[symmetric])

lemma step_keeps_failure_clear:
  "bit cst FAILURE_ZERO \<Longrightarrow> \<not> bit st FAILURE \<Longrightarrow> a \<noteq> ''|failure'' \<Longrightarrow> a \<noteq> ''!failure'' \<Longrightarrow>
     \<not> bit (buildStatusFlag_step cst st a) FAILURE"
  by (simp add: bit_buildStatusFlag_step flags_distinct flags_distinct[symmetric])

lemma and_success_stays_clear:
  "bit cst SUCCESS_ZERO \<Longrightarrow> \<not> bit st SUCCESS \<Longrightarrow> ''|success'' \<notin> set post \<Longrightarrow>
     ''!success'' \<notin> set post \<Longrightarrow> \<not> bit (foldl (buildStatusFlag_step cst) st post) SUCCESS"
proof (induction post arbitrary: st)
  case Nil
  then show ?case by simp
next
  case (Cons a post)
  from Cons.prems have "\<not> bit (buildStatusFlag_step cst st a) SUCCESS"
    by (intro step_keeps_success_clear) auto
  with Cons show ?case by simp
qed

lemma and_failure_stays_clear:
  "bit cst FAILURE_ZERO \<Longrightarrow> \<not> bit st FAILURE \<Longrightarrow> ''|failure'' \<notin> set post \<Longrightarrow>
     ''!failure'' \<notin> set post \<Longrightarrow> \<not> bit (foldl (buildStatusFlag_step cst) st post) FAILURE"
proof (induction post arbitrary: st)
  case Nil
  then show ?case by simp
next
  case (Cons a post)
  from Cons.prems have "\<not> bit (buildStatusFlag_step cst st a) FAILURE"
    by (intro step_keeps_failure_clear) auto
  with Cons show ?case by simp
qed

lemma settled_with_directives:
  assumes "status_settled x" "tg_children x = Some cs"
    "nd_status (tg_def (tg_fields x)) = Some (pre @ s # post)"
  shows "node_status x = foldl (buildStatusFlag_step (childAggregate cs))
            (buildStatusFlag_step (childAggregate cs)
               (foldl (buildStatusFlag_step (childAggregate cs))
                  (toStatusFlag (tg_def (tg_fields x))) pre) s) post"
proof -
  obtain y ys where "pre @ s # post = y # ys" by (cases pre) auto
  with assms show ?thesis
    by (simp add: status_settled_def node_status_def buildStatusFlag_def
        del: foldl.simps foldl_Cons)
       (metis foldl_Cons foldl_append)
qed

lemma step_keeps_success_set:
  "\<not> bit cst SUCCESS_ZERO \<Longrightarrow> bit st SUCCESS \<Longrightarrow> bit (buildStatusFlag_step cst st a) SUCCESS"
  by (simp add: bit_buildStatusFlag_step flags_distinct flags_distinct[symmetric])

lemma step_keeps_failure_set:
  "\<not> bit cst FAILURE_ZERO \<Longrightarrow> bit st FAILURE \<Longrightarrow> bit (buildStatusFlag_step cst st a) FAILURE"
  by (simp add: bit_buildStatusFlag_step flags_distinct flags_distinct[symmetric])

lemma and_success_stays_set:
  "\<not> bit cst SUCCESS_ZERO \<Longrightarrow> bit st SUCCESS \<Longrightarrow>
     bit (foldl (buildStatusFlag_step cst) st post) SUCCESS"
  by (induction post arbitrary: st) (simp_all add: step_keeps_success_set)

lemma and_failure_stays_set:
  "\<not> bit cst FAILURE_ZERO \<Longrightarrow> bit st FAILURE \<Longrightarrow>
     bit (foldl (buildStatusFlag_step cst) st post) FAILURE"
  by (induction post arbitrary: st) (simp_all add: step_keeps_failure_set)

lemma step_keeps_success_as_is:
  "\<not> bit cst SUCCESS_ZERO \<Longrightarrow> (bit cst SUCCESS \<longrightarrow> bit st SUCCESS) \<Longrightarrow>
     a \<noteq> ''|success'' \<Longrightarrow> a \<noteq> ''!success'' \<Longrightarrow>
     bit (buildStatusFlag_step cst st a) SUCCESS = bit st SUCCESS"
  by (auto simp: bit_buildStatusFlag_step flags_distinct flags_distinct[symmetric])

lemma step_keeps_failure_as_is:
  "\<not> bit cst FAILURE_ZERO \<Longrightarrow> (bit cst FAILURE \<longrightarrow> bit st FAILURE) \<Longrightarrow>
     a \<noteq> ''|failure'' \<Longrightarrow> a \<noteq> ''!failure'' \<Longrightarrow>
     bit (buildStatusFlag_step cst st a) FAILURE = bit st FAILURE"
  by (auto simp: bit_buildStatusFlag_step flags_distinct flags_distinct[symmetric])

lemma and_success_stays_as_is:
  "\<not> bit cst SUCCESS_ZERO \<Longrightarrow> (bit cst SUCCESS \<longrightarrow> bit st SUCCESS) \<Longrightarrow>
     ''|success'' \<notin> set post \<Longrightarrow> ''!success'' \<notin> set post \<Longrightarrow>
     bit (foldl (buildStatusFlag_step cst) st post) SUCCESS = bit st SUCCESS"
proof (induction post arbitrary: st)
  case Nil
  then show ?case by simp
next
  case (Cons a post)
  from Cons.prems have e: "bit (buildStatusFlag_step cst st a) SUCCESS = bit st SUCCESS"
    by (intro step_keeps_success_as_is) auto
  with Cons.prems have "bit cst SUCCESS \<longrightarrow> bit (buildStatusFlag_step cst st a) SUCCESS" by simp
  from Cons.IH[OF Cons.prems(1) this] Cons.prems e show ?case by simp
qed

lemma and_failure_stays_as_is:
  "\<not> bit cst FAILURE_ZERO \<Longrightarrow> (bit cst FAILURE \<longrightarrow> bit st FAILURE) \<Longrightarrow>
     ''|failure'' \<notin> set post \<Longrightarrow> ''!failure'' \<notin> set post \<Longrightarrow>
     bit (foldl (buildStatusFlag_step cst) st post) FAILURE = bit st FAILURE"
proof (induction post arbitrary: st)
  case Nil
  then show ?case by simp
next
  case (Cons a post)
  from Cons.prems have e: "bit (buildStatusFlag_step cst st a) FAILURE = bit st FAILURE"
    by (intro step_keeps_failure_as_is) auto
  with Cons.prems have "bit cst FAILURE \<longrightarrow> bit (buildStatusFlag_step cst st a) FAILURE" by simp
  from Cons.IH[OF Cons.prems(1) this] Cons.prems e show ?case by simp
qed

text \<open>The aggregate's bits in terms of the children that enter it.\<close>

lemma aggregate_success_bits:
  "bit (childAggregate cs) SUCCESS_ZERO \<longleftrightarrow>
     (\<exists>c\<in>set cs. contributing c \<and> (\<not> bit (node_status c) SUCCESS \<or> bit (node_status c) SUCCESS_ZERO))"
  "bit (childAggregate cs) SUCCESS \<longleftrightarrow> (\<exists>c\<in>set cs. contributing c \<and> bit (node_status c) SUCCESS)"
  by (auto simp: bit_childAggregate flags_distinct flags_distinct[symmetric])

lemma aggregate_failure_bits:
  "bit (childAggregate cs) FAILURE_ZERO \<longleftrightarrow>
     (\<exists>c\<in>set cs. contributing c \<and> (\<not> bit (node_status c) FAILURE \<or> bit (node_status c) FAILURE_ZERO))"
  "bit (childAggregate cs) FAILURE \<longleftrightarrow> (\<exists>c\<in>set cs. contributing c \<and> bit (node_status c) FAILURE)"
  by (auto simp: bit_childAggregate flags_distinct flags_distinct[symmetric])

lemma and_success_exact:
  assumes st: "status_settled x" and ch: "tg_children x = Some cs"
    and d: "nd_status (tg_def (tg_fields x)) = Some (pre @ ''&success'' # post)"
  shows "(\<exists>c\<in>set cs. contributing c) \<Longrightarrow>
         (\<forall>c\<in>set cs. contributing c \<longrightarrow> bit (node_status c) SUCCESS \<and> \<not> bit (node_status c) SUCCESS_ZERO)
         \<Longrightarrow> bit (node_status x) SUCCESS"
    and "''|success'' \<notin> set post \<Longrightarrow> ''!success'' \<notin> set post \<Longrightarrow>
         bit (node_status x) SUCCESS \<longleftrightarrow>
           (\<forall>c\<in>set cs. contributing c \<longrightarrow> bit (node_status c) SUCCESS \<and> \<not> bit (node_status c) SUCCESS_ZERO)
           \<and> (bit (foldl (buildStatusFlag_step (childAggregate cs))
                      (toStatusFlag (tg_def (tg_fields x))) pre) SUCCESS
                \<or> (\<exists>c\<in>set cs. contributing c))"
proof -
  let ?agg = "childAggregate cs"
  let ?own = "foldl (buildStatusFlag_step ?agg) (toStatusFlag (tg_def (tg_fields x))) pre"
  let ?mid = "buildStatusFlag_step ?agg ?own ''&success''"
  note e = settled_with_directives[OF st ch d]
  {
    assume a: "\<exists>c\<in>set cs. contributing c"
      and b: "\<forall>c\<in>set cs. contributing c \<longrightarrow> bit (node_status c) SUCCESS \<and> \<not> bit (node_status c) SUCCESS_ZERO"
    from b have z: "\<not> bit ?agg SUCCESS_ZERO" by (auto simp: aggregate_success_bits)
    from a b have s: "bit ?agg SUCCESS" by (auto simp: aggregate_success_bits)
    from z s have "bit ?mid SUCCESS" by (simp add: bit_buildStatusFlag_step)
    from and_success_stays_set[OF z this] show "bit (node_status x) SUCCESS" by (simp add: e)
  }
  {
    assume p: "''|success'' \<notin> set post" "''!success'' \<notin> set post"
    show "bit (node_status x) SUCCESS \<longleftrightarrow>
           (\<forall>c\<in>set cs. contributing c \<longrightarrow> bit (node_status c) SUCCESS \<and> \<not> bit (node_status c) SUCCESS_ZERO)
           \<and> (bit ?own SUCCESS \<or> (\<exists>c\<in>set cs. contributing c))"
    proof (cases "bit ?agg SUCCESS_ZERO")
      case True
      then have "\<not> bit ?mid SUCCESS" by (simp add: bit_buildStatusFlag_step)
      from and_success_stays_clear[OF True this p] have "\<not> bit (node_status x) SUCCESS"
        by (simp add: e)
      with True show ?thesis by (auto simp: aggregate_success_bits)
    next
      case False
      then have m: "bit ?mid SUCCESS \<longleftrightarrow> bit ?own SUCCESS \<or> bit ?agg SUCCESS"
        by (simp add: bit_buildStatusFlag_step)
      then have "bit ?agg SUCCESS \<longrightarrow> bit ?mid SUCCESS" by simp
      from and_success_stays_as_is[OF False this p] m
      have "bit (node_status x) SUCCESS \<longleftrightarrow> bit ?own SUCCESS \<or> bit ?agg SUCCESS"
        by (simp add: e)
      with False show ?thesis by (auto simp: aggregate_success_bits)
    qed
  }
qed

lemma and_failure_exact:
  assumes st: "status_settled x" and ch: "tg_children x = Some cs"
    and d: "nd_status (tg_def (tg_fields x)) = Some (pre @ ''&failure'' # post)"
  shows "(\<exists>c\<in>set cs. contributing c) \<Longrightarrow>
         (\<forall>c\<in>set cs. contributing c \<longrightarrow> bit (node_status c) FAILURE \<and> \<not> bit (node_status c) FAILURE_ZERO)
         \<Longrightarrow> bit (node_status x) FAILURE"
    and "''|failure'' \<notin> set post \<Longrightarrow> ''!failure'' \<notin> set post \<Longrightarrow>
         bit (node_status x) FAILURE \<longleftrightarrow>
           (\<forall>c\<in>set cs. contributing c \<longrightarrow> bit (node_status c) FAILURE \<and> \<not> bit (node_status c) FAILURE_ZERO)
           \<and> (bit (foldl (buildStatusFlag_step (childAggregate cs))
                      (toStatusFlag (tg_def (tg_fields x))) pre) FAILURE
                \<or> (\<exists>c\<in>set cs. contributing c))"
proof -
  let ?agg = "childAggregate cs"
  let ?own = "foldl (buildStatusFlag_step ?agg) (toStatusFlag (tg_def (tg_fields x))) pre"
  let ?mid = "buildStatusFlag_step ?agg ?own ''&failure''"
  note e = settled_with_directives[OF st ch d]
  {
    assume a: "\<exists>c\<in>set cs. contributing c"
      and b: "\<forall>c\<in>set cs. contributing c \<longrightarrow> bit (node_status c) FAILURE \<and> \<not> bit (node_status c) FAILURE_ZERO"
    from b have z: "\<not> bit ?agg FAILURE_ZERO" by (auto simp: aggregate_failure_bits)
    from a b have s: "bit ?agg FAILURE" by (auto simp: aggregate_failure_bits)
    from z s have "bit ?mid FAILURE" by (simp add: bit_buildStatusFlag_step)
    from and_failure_stays_set[OF z this] show "bit (node_status x) FAILURE" by (simp add: e)
  }
  {
    assume p: "''|failure'' \<notin> set post" "''!failure'' \<notin> set post"
    show "bit (node_status x) FAILURE \<longleftrightarrow>
           (\<forall>c\<in>set cs. contributing c \<longrightarrow> bit (node_status c) FAILURE \<and> \<not> bit (node_status c) FAILURE_ZERO)
           \<and> (bit ?own FAILURE \<or> (\<exists>c\<in>set cs. contributing c))"
    proof (cases "bit ?agg FAILURE_ZERO")
      case True
      then have "\<not> bit ?mid FAILURE" by (simp add: bit_buildStatusFlag_step)
      from and_failure_stays_clear[OF True this p] have "\<not> bit (node_status x) FAILURE"
        by (simp add: e)
      with True show ?thesis by (auto simp: aggregate_failure_bits)
    next
      case False
      then have m: "bit ?mid FAILURE \<longleftrightarrow> bit ?own FAILURE \<or> bit ?agg FAILURE"
        by (simp add: bit_buildStatusFlag_step)
      then have "bit ?agg FAILURE \<longrightarrow> bit ?mid FAILURE" by simp
      from and_failure_stays_as_is[OF False this p] m
      have "bit (node_status x) FAILURE \<longleftrightarrow> bit ?own FAILURE \<or> bit ?agg FAILURE"
        by (simp add: e)
      with False show ?thesis by (auto simp: aggregate_failure_bits)
    qed
  }
qed

lemmas status_eval = graphNode_def plainDef_def Let_def node_status_def toStatusFlag_def
  toStatusFlag_step_def buildStatusFlag_def buildStatusFlag_step_def appendStatusFlag_def
  truthy_num_def truthy_bool_def contributing_def
  SUCCESS_def FAILURE_def RUNNING_def SUCCESS_ZERO_def FAILURE_ZERO_def

text \<open>
  Claim C4, as the code has it. After \<^verbatim>\<open>refreshTreeDataId\<close>, a node without a
  \<^verbatim>\<open>children\<close> array, and a node whose definition has a non-empty \<^verbatim>\<open>status\<close> list,
  stores a status with the \<open>SUCCESS_ZERO\<close> and \<open>FAILURE_ZERO\<close> bits clear. A node with
  children whose definition has no (or an empty) \<^verbatim>\<open>status\<close> list stores its own flags
  OR-ed with the whole child aggregate, tracking bits included: its \<open>SUCCESS_ZERO\<close> bit
  is set exactly when some child that enters the aggregate carries that bit or lacks
  \<open>SUCCESS\<close>, and likewise for \<open>FAILURE_ZERO\<close>.
\<close>

theorem tracking_bits_after_refresh:
  assumes "x \<in> set (nodes (snd (refreshTreeDataId t ido)))"
  shows "((tg_children x = None \<or> (\<exists>s ss. nd_status (tg_def (tg_fields x)) = Some (s # ss)))
            \<longrightarrow> \<not> bit (node_status x) SUCCESS_ZERO \<and> \<not> bit (node_status x) FAILURE_ZERO)
       \<and> (\<forall>cs. tg_children x = Some cs \<and>
              (nd_status (tg_def (tg_fields x)) = None \<or> nd_status (tg_def (tg_fields x)) = Some [])
            \<longrightarrow> node_status x = toStatusFlag (tg_def (tg_fields x)) OR childAggregate cs
              \<and> (bit (node_status x) SUCCESS_ZERO \<longleftrightarrow>
                   (\<exists>c\<in>set cs. contributing c \<and>
                      (bit (node_status c) SUCCESS_ZERO \<or> \<not> bit (node_status c) SUCCESS)))
              \<and> (bit (node_status x) FAILURE_ZERO \<longleftrightarrow>
                   (\<exists>c\<in>set cs. contributing c \<and>
                      (bit (node_status c) FAILURE_ZERO \<or> \<not> bit (node_status c) FAILURE))))"
proof -
  let ?d = "tg_def (tg_fields x)"
  from assms have st: "status_settled x" by (rule settled_node)
  have own: "\<not> bit (toStatusFlag ?d) SUCCESS_ZERO" "\<not> bit (toStatusFlag ?d) FAILURE_ZERO"
    by (simp_all add: bit_toStatusFlag flags_distinct)
  have a: "\<not> bit (node_status x) SUCCESS_ZERO \<and> \<not> bit (node_status x) FAILURE_ZERO"
    if "tg_children x = None \<or> (\<exists>s ss. nd_status ?d = Some (s # ss))"
  proof (cases "tg_children x")
    case None
    with st own show ?thesis by (simp add: status_settled_def node_status_def)
  next
    case (Some cs)
    with that obtain s ss where d: "nd_status ?d = Some (s # ss)" by auto
    from st Some d have "node_status x =
        foldl (buildStatusFlag_step (childAggregate cs)) (toStatusFlag ?d) (s # ss)"
      by (simp add: status_settled_def node_status_def buildStatusFlag_def)
    with own show ?thesis
      using foldl_build_keeps_clear[of SUCCESS_ZERO "toStatusFlag ?d" "childAggregate cs" "s # ss"]
            foldl_build_keeps_clear[of FAILURE_ZERO "toStatusFlag ?d" "childAggregate cs" "s # ss"]
      by (simp add: flags_distinct del: foldl.simps)
  qed
  have b: "node_status x = toStatusFlag ?d OR childAggregate cs
           \<and> (bit (node_status x) SUCCESS_ZERO \<longleftrightarrow>
                   (\<exists>c\<in>set cs. contributing c \<and>
                      (bit (node_status c) SUCCESS_ZERO \<or> \<not> bit (node_status c) SUCCESS)))
           \<and> (bit (node_status x) FAILURE_ZERO \<longleftrightarrow>
                   (\<exists>c\<in>set cs. contributing c \<and>
                      (bit (node_status c) FAILURE_ZERO \<or> \<not> bit (node_status c) FAILURE)))"
    if "tg_children x = Some cs" "nd_status ?d = None \<or> nd_status ?d = Some []" for cs
  proof -
    from st that have e: "node_status x = toStatusFlag ?d OR childAggregate cs"
      by (auto simp: status_settled_def node_status_def buildStatusFlag_def)
    show ?thesis
      unfolding e using own
      by (auto simp: bit_or_iff bit_childAggregate flags_distinct flags_distinct[symmetric])
  qed
  from a b show ?thesis by blast
qed

theorem tracking_bits_after_refresh_witness:
  "\<not> bit (node_status (snd (refreshTreeDataId
        (two_children (Some [''&success'', ''|failure''])
           (plainDef ''A'' (Some [''success''])) (plainDef ''B'' (Some [''failure''])))
        None))) SUCCESS_ZERO
   \<and> \<not> bit (node_status (snd (refreshTreeDataId
        (two_children (Some [''&success'', ''|failure''])
           (plainDef ''A'' (Some [''success''])) (plainDef ''B'' (Some [''failure''])))
        None))) FAILURE_ZERO"
proof -
  let ?t = "two_children (Some [''&success'', ''|failure''])
              (plainDef ''A'' (Some [''success''])) (plainDef ''B'' (Some [''failure'']))"
  let ?x = "snd (refreshTreeDataId ?t None)"
  have m: "?x \<in> set (nodes ?x)" by (subst nodes_hd) simp
  have d: "\<exists>s ss. nd_status (tg_def (tg_fields ?x)) = Some (s # ss)"
    by (simp add: two_children_def graphNode_def plainDef_def Let_def split: prod.splits)
  from tracking_bits_after_refresh[OF m] d show ?thesis by blast
qed

theorem tracking_bit_leaks:
  "node_status (snd (refreshTreeDataId leak_tree None)) = 20
   \<and> bit (node_status (snd (refreshTreeDataId leak_tree None))) FAILURE_ZERO"
  by (simp add: leak_tree_def status_eval)

text \<open>
  Claim C3, as the code has it. The children that enter the aggregate are those with a
  non-zero status that are not disabled. Take a node with a \<^verbatim>\<open>children\<close> array, after
  \<^verbatim>\<open>refreshTreeDataId\<close>, whose \<^verbatim>\<open>status\<close> list has an \<^verbatim>\<open>"&success"\<close>.

  \<^item> If some child that enters the aggregate lacks \<open>SUCCESS\<close>, and no \<^verbatim>\<open>"|success"\<close> or
    \<^verbatim>\<open>"!success"\<close> follows the \<^verbatim>\<open>"&success"\<close>, the node's \<open>SUCCESS\<close> bit is clear.
  \<^item> If at least one child enters the aggregate, and every child that does has \<open>SUCCESS\<close>
    and does not carry the \<open>SUCCESS_ZERO\<close> tracking bit, the node's \<open>SUCCESS\<close> bit is set,
    whatever follows the \<^verbatim>\<open>"&success"\<close>.
  \<^item> When no \<^verbatim>\<open>"|success"\<close> or \<^verbatim>\<open>"!success"\<close> follows the \<^verbatim>\<open>"&success"\<close>, the node's
    \<open>SUCCESS\<close> bit is set exactly when every child that enters the aggregate has \<open>SUCCESS\<close>
    without the \<open>SUCCESS_ZERO\<close> bit, and either some child enters the aggregate or the
    bit was already set when the directive ran (by the definition's own \<^verbatim>\<open>"success"\<close>
    entry or by an earlier directive).

  The same three statements hold for \<^verbatim>\<open>"&failure"\<close>, \<open>FAILURE\<close> and \<open>FAILURE_ZERO\<close>. A node
  declaring \<^verbatim>\<open>["&success", "|failure"]\<close> over two children that both enter the aggregate,
  exactly one of them with \<open>SUCCESS\<close>, ends with \<open>SUCCESS\<close> clear and with \<open>FAILURE\<close> set
  exactly when one of the two has \<open>FAILURE\<close>.
\<close>

theorem and_directives_after_refresh:
  assumes "x \<in> set (nodes (snd (refreshTreeDataId t ido)))"
    and "tg_children x = Some cs"
  shows "(\<forall>pre post. nd_status (tg_def (tg_fields x)) = Some (pre @ ''&success'' # post)
            \<and> ''|success'' \<notin> set post \<and> ''!success'' \<notin> set post
            \<and> (\<exists>c\<in>set cs. contributing c \<and> \<not> bit (node_status c) SUCCESS)
          \<longrightarrow> \<not> bit (node_status x) SUCCESS)
       \<and> (\<forall>pre post. nd_status (tg_def (tg_fields x)) = Some (pre @ ''&failure'' # post)
            \<and> ''|failure'' \<notin> set post \<and> ''!failure'' \<notin> set post
            \<and> (\<exists>c\<in>set cs. contributing c \<and> \<not> bit (node_status c) FAILURE)
          \<longrightarrow> \<not> bit (node_status x) FAILURE)
       \<and> (\<forall>pre post. nd_status (tg_def (tg_fields x)) = Some (pre @ ''&success'' # post)
            \<and> (\<exists>c\<in>set cs. contributing c)
            \<and> (\<forall>c\<in>set cs. contributing c \<longrightarrow>
                  bit (node_status c) SUCCESS \<and> \<not> bit (node_status c) SUCCESS_ZERO)
          \<longrightarrow> bit (node_status x) SUCCESS)
       \<and> (\<forall>pre post. nd_status (tg_def (tg_fields x)) = Some (pre @ ''&failure'' # post)
            \<and> (\<exists>c\<in>set cs. contributing c)
            \<and> (\<forall>c\<in>set cs. contributing c \<longrightarrow>
                  bit (node_status c) FAILURE \<and> \<not> bit (node_status c) FAILURE_ZERO)
          \<longrightarrow> bit (node_status x) FAILURE)
       \<and> (\<forall>pre post. nd_status (tg_def (tg_fields x)) = Some (pre @ ''&success'' # post)
            \<and> ''|success'' \<notin> set post \<and> ''!success'' \<notin> set post
          \<longrightarrow> (bit (node_status x) SUCCESS \<longleftrightarrow>
                 (\<forall>c\<in>set cs. contributing c \<longrightarrow>
                    bit (node_status c) SUCCESS \<and> \<not> bit (node_status c) SUCCESS_ZERO)
                 \<and> (bit (foldl (buildStatusFlag_step (childAggregate cs))
                            (toStatusFlag (tg_def (tg_fields x))) pre) SUCCESS
                      \<or> (\<exists>c\<in>set cs. contributing c))))
       \<and> (\<forall>pre post. nd_status (tg_def (tg_fields x)) = Some (pre @ ''&failure'' # post)
            \<and> ''|failure'' \<notin> set post \<and> ''!failure'' \<notin> set post
          \<longrightarrow> (bit (node_status x) FAILURE \<longleftrightarrow>
                 (\<forall>c\<in>set cs. contributing c \<longrightarrow>
                    bit (node_status c) FAILURE \<and> \<not> bit (node_status c) FAILURE_ZERO)
                 \<and> (bit (foldl (buildStatusFlag_step (childAggregate cs))
                            (toStatusFlag (tg_def (tg_fields x))) pre) FAILURE
                      \<or> (\<exists>c\<in>set cs. contributing c))))
       \<and> (\<forall>a b. nd_status (tg_def (tg_fields x)) = Some [''&success'', ''|failure'']
            \<and> cs = [a, b] \<and> contributing a \<and> contributing b
            \<and> bit (node_status a) SUCCESS \<noteq> bit (node_status b) SUCCESS
          \<longrightarrow> \<not> bit (node_status x) SUCCESS
              \<and> (bit (node_status x) FAILURE \<longleftrightarrow>
                   bit (node_status a) FAILURE \<or> bit (node_status b) FAILURE))"
proof -
  let ?d = "tg_def (tg_fields x)"
  let ?agg = "childAggregate cs"
  from assms(1) have st: "status_settled x" by (rule settled_node)
  have s: "\<not> bit (node_status x) SUCCESS"
    if d: "nd_status ?d = Some (pre @ ''&success'' # post)"
      and p: "''|success'' \<notin> set post" "''!success'' \<notin> set post"
      and c: "\<exists>c\<in>set cs. contributing c \<and> \<not> bit (node_status c) SUCCESS" for pre post
  proof -
    from c have z: "bit ?agg SUCCESS_ZERO" by (auto simp: bit_childAggregate)
    then have "\<not> bit (buildStatusFlag_step ?agg
                  (foldl (buildStatusFlag_step ?agg) (toStatusFlag ?d) pre) ''&success'') SUCCESS"
      by (simp add: bit_buildStatusFlag_step)
    from and_success_stays_clear[OF z this p] show ?thesis
      by (simp add: settled_with_directives[OF st assms(2) d])
  qed
  have f: "\<not> bit (node_status x) FAILURE"
    if d: "nd_status ?d = Some (pre @ ''&failure'' # post)"
      and p: "''|failure'' \<notin> set post" "''!failure'' \<notin> set post"
      and c: "\<exists>c\<in>set cs. contributing c \<and> \<not> bit (node_status c) FAILURE" for pre post
  proof -
    from c have z: "bit ?agg FAILURE_ZERO" by (auto simp: bit_childAggregate)
    then have "\<not> bit (buildStatusFlag_step ?agg
                  (foldl (buildStatusFlag_step ?agg) (toStatusFlag ?d) pre) ''&failure'') FAILURE"
      by (simp add: bit_buildStatusFlag_step)
    from and_failure_stays_clear[OF z this p] show ?thesis
      by (simp add: settled_with_directives[OF st assms(2) d])
  qed
  have e: "\<not> bit (node_status x) SUCCESS
           \<and> (bit (node_status x) FAILURE \<longleftrightarrow>
                bit (node_status a) FAILURE \<or> bit (node_status b) FAILURE)"
    if d: "nd_status ?d = Some [''&success'', ''|failure'']" and cs: "cs = [a, b]"
      and c: "contributing a" "contributing b"
      and ab: "bit (node_status a) SUCCESS \<noteq> bit (node_status b) SUCCESS" for a b
  proof -
    from d have d': "nd_status ?d = Some ([] @ ''&success'' # [''|failure''])" by simp
    from cs c ab have "\<exists>c\<in>set cs. contributing c \<and> \<not> bit (node_status c) SUCCESS" by auto
    with s[OF d'] have 1: "\<not> bit (node_status x) SUCCESS" by simp
    from cs c ab have z: "bit ?agg SUCCESS_ZERO" by (auto simp: bit_childAggregate)
    have own: "\<not> bit (toStatusFlag ?d) FAILURE" using d by (simp add: bit_toStatusFlag)
    have agg: "bit ?agg FAILURE \<longleftrightarrow> bit (node_status a) FAILURE \<or> bit (node_status b) FAILURE"
      using cs c by (auto simp: bit_childAggregate flags_distinct flags_distinct[symmetric])
    have "node_status x = buildStatusFlag_step ?agg
             (buildStatusFlag_step ?agg (toStatusFlag ?d) ''&success'') ''|failure''"
      using settled_with_directives[OF st assms(2) d'] by simp
    then have "bit (node_status x) FAILURE \<longleftrightarrow> bit ?agg FAILURE"
      using z own by (simp add: bit_buildStatusFlag_step flags_distinct flags_distinct[symmetric])
    with 1 agg show ?thesis by simp
  qed
  note ss = and_success_exact(1)[OF st assms(2)]
  note sx = and_success_exact(2)[OF st assms(2)]
  note fs = and_failure_exact(1)[OF st assms(2)]
  note fx = and_failure_exact(2)[OF st assms(2)]
  show ?thesis
  proof (intro conjI allI impI)
    fix pre post
    assume "nd_status ?d = Some (pre @ ''&success'' # post)
            \<and> ''|success'' \<notin> set post \<and> ''!success'' \<notin> set post
            \<and> (\<exists>c\<in>set cs. contributing c \<and> \<not> bit (node_status c) SUCCESS)"
    then show "\<not> bit (node_status x) SUCCESS" using s by blast
  next
    fix pre post
    assume "nd_status ?d = Some (pre @ ''&failure'' # post)
            \<and> ''|failure'' \<notin> set post \<and> ''!failure'' \<notin> set post
            \<and> (\<exists>c\<in>set cs. contributing c \<and> \<not> bit (node_status c) FAILURE)"
    then show "\<not> bit (node_status x) FAILURE" using f by blast
  next
    fix pre post
    assume "nd_status ?d = Some (pre @ ''&success'' # post)
            \<and> (\<exists>c\<in>set cs. contributing c)
            \<and> (\<forall>c\<in>set cs. contributing c \<longrightarrow>
                  bit (node_status c) SUCCESS \<and> \<not> bit (node_status c) SUCCESS_ZERO)"
    then show "bit (node_status x) SUCCESS" using ss by blast
  next
    fix pre post
    assume "nd_status ?d = Some (pre @ ''&failure'' # post)
            \<and> (\<exists>c\<in>set cs. contributing c)
            \<and> (\<forall>c\<in>set cs. contributing c \<longrightarrow>
                  bit (node_status c) FAILURE \<and> \<not> bit (node_status c) FAILURE_ZERO)"
    then show "bit (node_status x) FAILURE" using fs by blast
  next
    fix pre post
    assume a: "nd_status ?d = Some (pre @ ''&success'' # post)
            \<and> ''|success'' \<notin> set post \<and> ''!success'' \<notin> set post"
    then have "nd_status ?d = Some (pre @ ''&success'' # post)"
      "''|success'' \<notin> set post" "''!success'' \<notin> set post" by simp_all
    then show "bit (node_status x) SUCCESS \<longleftrightarrow>
                 (\<forall>c\<in>set cs. contributing c \<longrightarrow>
                    bit (node_status c) SUCCESS \<and> \<not> bit (node_status c) SUCCESS_ZERO)
                 \<and> (bit (foldl (buildStatusFlag_step (childAggregate cs))
                            (toStatusFlag ?d) pre) SUCCESS
                      \<or> (\<exists>c\<in>set cs. contributing c))"
      by (rule sx)
  next
    fix pre post
    assume a: "nd_status ?d = Some (pre @ ''&failure'' # post)
            \<and> ''|failure'' \<notin> set post \<and> ''!failure'' \<notin> set post"
    then have "nd_status ?d = Some (pre @ ''&failure'' # post)"
      "''|failure'' \<notin> set post" "''!failure'' \<notin> set post" by simp_all
    then show "bit (node_status x) FAILURE \<longleftrightarrow>
                 (\<forall>c\<in>set cs. contributing c \<longrightarrow>
                    bit (node_status c) FAILURE \<and> \<not> bit (node_status c) FAILURE_ZERO)
                 \<and> (bit (foldl (buildStatusFlag_step (childAggregate cs))
                            (toStatusFlag ?d) pre) FAILURE
                      \<or> (\<exists>c\<in>set cs. contributing c))"
      by (rule fx)
  next
    fix a b
    assume "nd_status ?d = Some [''&success'', ''|failure'']
            \<and> cs = [a, b] \<and> contributing a \<and> contributing b
            \<and> bit (node_status a) SUCCESS \<noteq> bit (node_status b) SUCCESS"
    then have r: "\<not> bit (node_status x) SUCCESS
              \<and> (bit (node_status x) FAILURE \<longleftrightarrow>
                   bit (node_status a) FAILURE \<or> bit (node_status b) FAILURE)"
      using e by blast
    from r show "\<not> bit (node_status x) SUCCESS" by simp
    from r show "bit (node_status x) FAILURE \<longleftrightarrow>
                   bit (node_status a) FAILURE \<or> bit (node_status b) FAILURE" by simp
  qed
qed

theorem and_directives_after_refresh_witness:
  "\<not> bit (node_status (snd (refreshTreeDataId
        (two_children (Some [''&success'', ''|failure''])
           (plainDef ''A'' (Some [''success''])) (plainDef ''B'' (Some [''failure''])))
        None))) SUCCESS
   \<and> bit (node_status (snd (refreshTreeDataId
        (two_children (Some [''&success'', ''|failure''])
           (plainDef ''A'' (Some [''success''])) (plainDef ''B'' (Some [''failure''])))
        None))) FAILURE
   \<and> bit (node_status (snd (refreshTreeDataId
        (two_children (Some [''&success'', ''&failure''])
           (plainDef ''A'' (Some [''success'']))
           (plainDef ''B'' (Some [''success'', ''failure''])))
        None))) SUCCESS
   \<and> \<not> bit (node_status (snd (refreshTreeDataId
        (two_children (Some [''&success'', ''&failure''])
           (plainDef ''A'' (Some [''success'']))
           (plainDef ''B'' (Some [''success'', ''failure''])))
        None))) FAILURE"
proof -
  let ?t = "two_children (Some [''&success'', ''|failure''])
              (plainDef ''A'' (Some [''success''])) (plainDef ''B'' (Some [''failure'']))"
  let ?x = "snd (refreshTreeDataId ?t None)"
  let ?a = "hd (the (tg_children ?x))"
  let ?b = "hd (tl (the (tg_children ?x)))"
  have m: "?x \<in> set (nodes ?x)" by (subst nodes_hd) simp
  have c: "tg_children ?x = Some [?a, ?b]"
    by (simp add: two_children_def graphNode_def Let_def split: prod.splits)
  have d: "nd_status (tg_def (tg_fields ?x)) = Some [''&success'', ''|failure'']"
    by (simp add: two_children_def graphNode_def plainDef_def Let_def split: prod.splits)
  have ab: "contributing ?a" "contributing ?b"
    "bit (node_status ?a) SUCCESS \<noteq> bit (node_status ?b) SUCCESS"
    "bit (node_status ?b) FAILURE"
    by (simp_all add: two_children_def status_eval)
  from and_directives_after_refresh[OF m c] d ab
  have 1: "\<not> bit (node_status ?x) SUCCESS \<and> bit (node_status ?x) FAILURE" by blast
  let ?u = "two_children (Some [''&success'', ''&failure''])
              (plainDef ''A'' (Some [''success'']))
              (plainDef ''B'' (Some [''success'', ''failure'']))"
  let ?y = "snd (refreshTreeDataId ?u None)"
  let ?p = "hd (the (tg_children ?y))"
  let ?q = "hd (tl (the (tg_children ?y)))"
  have m': "?y \<in> set (nodes ?y)" by (subst nodes_hd) simp
  have c': "tg_children ?y = Some [?p, ?q]"
    by (simp add: two_children_def graphNode_def Let_def split: prod.splits)
  have ds: "nd_status (tg_def (tg_fields ?y)) = Some ([] @ ''&success'' # [''&failure''])"
    and df: "nd_status (tg_def (tg_fields ?y)) = Some ([''&success''] @ ''&failure'' # [])"
    by (simp_all add: two_children_def graphNode_def plainDef_def Let_def split: prod.splits)
  have pq: "contributing ?p" "contributing ?q"
    "bit (node_status ?p) SUCCESS" "\<not> bit (node_status ?p) SUCCESS_ZERO"
    "bit (node_status ?q) SUCCESS" "\<not> bit (node_status ?q) SUCCESS_ZERO"
    "\<not> bit (node_status ?p) FAILURE"
    by (simp_all add: two_children_def status_eval)
  note T = and_directives_after_refresh[OF m' c']
  from pq have all: "\<forall>c\<in>set [?p, ?q]. contributing c \<longrightarrow>
      bit (node_status c) SUCCESS \<and> \<not> bit (node_status c) SUCCESS_ZERO" by simp
  from pq have ex: "\<exists>c\<in>set [?p, ?q]. contributing c" by simp
  from pq have lack: "\<exists>c\<in>set [?p, ?q]. contributing c \<and> \<not> bit (node_status c) FAILURE" by simp
  from T ds ex all have 2: "bit (node_status ?y) SUCCESS" by blast
  have np: "''|failure'' \<notin> set ([] :: string list)" "''!failure'' \<notin> set ([] :: string list)"
    by simp_all
  from T df np lack have 3: "\<not> bit (node_status ?y) FAILURE" by blast
  from 1 2 3 show ?thesis by simp
qed

theorem and_success_counterexample:
  "bit (node_status (snd (refreshTreeDataId
      (two_children (Some [''&success'', ''|failure''])
         (plainDef ''A'' (Some [''success''])) (plainDef ''B'' None)) None))) SUCCESS
   \<and> bit (node_status (snd (refreshTreeDataId
      (two_children (Some [''&success'', ''|success''])
         (plainDef ''A'' (Some [''success''])) (plainDef ''B'' (Some [''failure'']))) None))) SUCCESS"
  by (simp add: two_children_def status_eval)

section \<open>Validation of arguments and slots\<close>

text \<open>
  Claim C5. When none of the seven type tests accepts the raw type of an argument,
  \<^verbatim>\<open>checkNodeArgValue\<close> prints the "unknown arg type" diagnostic, whatever the value
  and whether or not \<^verbatim>\<open>verbose\<close> is set, and returns \<^verbatim>\<open>true\<close>: the branch calls
  \<^verbatim>\<open>error\<close> and leaves \<^verbatim>\<open>hasError\<close> unset, unlike every other branch.
\<close>

theorem unknown_kind_passes:
  assumes "getNodeArgRawType arg = Some ty"
    and "\<not> isFloatType b3 ty" "\<not> isIntType b3 ty" "\<not> isStringType b3 ty" "\<not> isEnumType b3 ty"
    and "\<not> isExprType b3 ty" "\<not> isJsonType b3 ty" "\<not> isBoolType b3 ty"
  shows "checkNodeArgValue b3 data arg v verbose
           = Inr (True, [error data (UnknownArgType (na_type arg))])"
  using assms by (simp add: checkNodeArgValue_def)

lemma raw_vec3: "getNodeArgRawType (arg_of_type ''vec3'') = Some ''vec3''"
  by (simp add: getNodeArgRawType_def arg_of_type_def is_word_char_def)

theorem unknown_kind_passes_witness:
  "checkNodeArgValue specB3Type view0 (arg_of_type ''vec3'') (JNum 1) False
     = Inr (True, [Diag ''1'' ''Move'' (UnknownArgType ''vec3'')])"
  using unknown_kind_passes[OF raw_vec3, of specB3Type view0 "JNum 1" False]
  by (simp add: specB3Type_def error_def view0_def arg_of_type_def)








lemma startsWith_iff: "startsWith s p \<longleftrightarrow> (\<exists>r. s = p @ r)"
  unfolding startsWith_def by (metis append_eq_conv_conj append_take_drop_id)

lemma str_includes_iff: "str_includes s p \<longleftrightarrow> (\<exists>l r. s = l @ p @ r)"
proof (induction s)
  case Nil
  then show ?case by auto
next
  case (Cons c s)
  show ?case
  proof
    assume "str_includes (c # s) p"
    then consider "startsWith (c # s) p" | "str_includes s p" by auto
    then show "\<exists>l r. c # s = l @ p @ r"
    proof cases
      case 1
      then obtain r where "c # s = p @ r" by (auto simp: startsWith_iff)
      then have "c # s = [] @ p @ r" by simp
      then show ?thesis by blast
    next
      case 2
      with Cons obtain l r where "s = l @ p @ r" by auto
      then have "c # s = (c # l) @ p @ r" by simp
      then show ?thesis by blast
    qed
  next
    assume "\<exists>l r. c # s = l @ p @ r"
    then obtain l r where e: "c # s = l @ p @ r" by auto
    show "str_includes (c # s) p"
    proof (cases l)
      case Nil
      with e have "\<exists>r. c # s = p @ r" by auto
      then have "startsWith (c # s) p" by (simp only: startsWith_iff)
      then show ?thesis by simp
    next
      case (Cons a l')
      with e have "s = l' @ p @ r" by simp
      with Cons.IH show ?thesis by auto
    qed
  qed
qed

lemma includes_char: "str_includes s [c] \<longleftrightarrow> c \<in> set s"
  by (auto simp: str_includes_iff in_set_conv_decomp)

lemma endsWith_iff: "endsWith s p \<longleftrightarrow> (\<exists>l. s = l @ p)"
proof
  assume "endsWith s p"
  then have "s = take (length s - length p) s @ p"
    by (simp add: endsWith_def) (metis append_take_drop_id)
  then show "\<exists>l. s = l @ p" ..
next
  assume "\<exists>l. s = l @ p"
  then show "endsWith s p" by (auto simp: endsWith_def)
qed

text \<open>
  Claim C7. For an index inside \<open>defs\<close>, \<^verbatim>\<open>isValidInputOrOutput\<close> holds exactly when the
  descriptor contains \<^verbatim>\<open>?\<close>, or the data value at the index is a non-empty string, or
  the index is the last one and the descriptor ends with \<^verbatim>\<open>...\<close>. The function takes
  the descriptor list and the data list as arguments, and both the input and the output
  loops call it.
\<close>

theorem slot_valid_rule:
  assumes "index < length defs"
  shows "isValidInputOrOutput defs data index =
           Inr (CHR ''?'' \<in> set (defs ! index)
                \<or> (\<exists>xs. data = Some xs \<and> index < length xs \<and> xs ! index \<noteq> [])
                \<or> (Suc index = length defs \<and> (\<exists>l. defs ! index = l @ ''...'')))"
  using assms
  by (cases data)
     (auto simp: isValidInputOrOutput_def includes_char endsWith_iff opt_nth_def truthy_str_def)

theorem slot_valid_rule_witness:
  "isValidInputOrOutput [''target'', ''hint?'', ''rest...''] (Some [''a'']) 0 = Inr True
   \<and> isValidInputOrOutput [''target'', ''hint?'', ''rest...''] (Some ['''']) 0 = Inr False
   \<and> isValidInputOrOutput [''target'', ''hint?'', ''rest...''] None 1 = Inr True
   \<and> isValidInputOrOutput [''target'', ''hint?'', ''rest...''] None 2 = Inr True
   \<and> isValidInputOrOutput [''rest...'', ''target''] None 0 = Inr False"
  using slot_valid_rule[of 0 "[''target'', ''hint?'', ''rest...'']" "Some [''a'']"]
        slot_valid_rule[of 0 "[''target'', ''hint?'', ''rest...'']" "Some ['''']"]
        slot_valid_rule[of 1 "[''target'', ''hint?'', ''rest...'']" None]
        slot_valid_rule[of 2 "[''target'', ''hint?'', ''rest...'']" None]
        slot_valid_rule[of 0 "[''rest...'', ''target'']" None]
  by simp

section \<open>The root of a tree and subtree roots\<close>

text \<open>
  Claim C10. A node whose id is \<^verbatim>\<open>"1"\<close> is no subtree root, whatever its \<^verbatim>\<open>path\<close>:
  \<^verbatim>\<open>createFileData\<close> writes its children (when it has any) with and without
  \<^verbatim>\<open>includeSubtree\<close>, and \<^verbatim>\<open>createNode\<close> writes them whenever \<^verbatim>\<open>includeChildren\<close> is
  set, as it is by default.
\<close>

theorem root_is_never_subtree_root:
  assumes "tg_id data = ''1''"
  shows "\<not> isSubtreeRoot data
       \<and> nm_children (createFileData ws (TreeGraphData data ch) includeSubtree) =
           (case ch of Some (c # cs) \<Rightarrow> Some (createFileDatas ws (c # cs) includeSubtree)
            | _ \<Rightarrow> None)
       \<and> nm_children (createNode (TreeGraphData data ch) includeChildren) =
           (case ch of Some cs \<Rightarrow> if includeChildren then Some (createNodes cs) else None
            | None \<Rightarrow> None)"
  using assms
  by (auto simp: isSubtreeRoot_def Let_def split: option.splits list.splits)

theorem root_is_never_subtree_root_witness:
  "nm_children (createFileData project_registry root_with_path False)
     = Some [createFileData project_registry (graphNode (plainDef ''Log'' None) None) False]
   \<and> nm_children (createNode root_with_path True)
     = Some [createNode (graphNode (plainDef ''Log'' None) None) True]"
proof -
  let ?f = "tg_fields root_with_path"
  have i: "tg_id ?f = ''1''" by (simp add: root_with_path_def)
  have r: "root_with_path = TreeGraphData ?f (Some [graphNode (plainDef ''Log'' None) None])"
    by (simp add: root_with_path_def)
  from root_is_never_subtree_root[OF i, where ch = "Some [graphNode (plainDef ''Log'' None) None]"
         and ws = project_registry and includeSubtree = False and includeChildren = True]
  show ?thesis by (subst (1 2) r) (simp del: createFileData.simps createNode.simps)
qed

section \<open>Validation of a tree\<close>

lemma checkChildren_unknown_member:
  assumes "nd_name (getNodeDef ws (nm_name f)) = nd_name (unknownNodeDef b3)"
  shows "NodeModel f ch \<in> set cs \<Longrightarrow> checkChildren b3 ws cs = (ds, cs', Inr ok) \<Longrightarrow>
           \<not> ok \<and> error (view_of_model f) (UndefinedNode (nm_name f)) \<in> set ds"
proof (induction cs arbitrary: ds cs' ok)
  case Nil
  then show ?case by simp
next
  case (Cons c cs)
  obtain d1 c1 r1 where c: "checkNodeData b3 ws c = (d1, c1, r1)"
    by (cases "checkNodeData b3 ws c")
  obtain d2 c2 r2 where r: "checkChildren b3 ws cs = (d2, c2, r2)"
    by (cases "checkChildren b3 ws cs")
  from Cons.prems(2) c r obtain ok1 ok2 where
    o: "r1 = Inr ok1" "r2 = Inr ok2" "ok = (ok1 \<and> ok2)" "ds = d1 @ d2"
    by (auto split: sum.splits)
  show ?case
  proof (cases "c = NodeModel f ch")
    case True
    with c assms have "d1 = [error (view_of_model f) (UndefinedNode (nm_name f))]" "r1 = Inr False"
      by (simp_all add: Let_def)
    with o show ?thesis by simp
  next
    case False
    with Cons.prems(1) have "NodeModel f ch \<in> set cs" by simp
    from Cons.IH[OF this] r o show ?thesis by simp
  qed
qed

text \<open>
  Claim C9, as the code has it. On a node whose name resolves to the sentinel
  definition, \<^verbatim>\<open>checkNodeData\<close> prints the "undefined node" diagnostic, returns
  \<^verbatim>\<open>false\<close> and returns at once: the node is left as it was and nothing below it is
  visited. The loop of the parent goes on to the following siblings, whose diagnostics
  are collected after this one, and the parent's loop ends with \<^verbatim>\<open>false\<close> (unless a
  sibling raises).
\<close>

theorem undefined_node_stops_descent:
  assumes "nd_name (getNodeDef ws (nm_name f)) = nd_name (unknownNodeDef b3)"
  shows "checkNodeData b3 ws (NodeModel f ch)
           = ([error (view_of_model f) (UndefinedNode (nm_name f))], NodeModel f ch, Inr False)
       \<and> checkChildren b3 ws (NodeModel f ch # rest)
           = (case checkChildren b3 ws rest of
                (ds, rest', r) \<Rightarrow>
                  (error (view_of_model f) (UndefinedNode (nm_name f)) # ds,
                   NodeModel f ch # rest',
                   case r of Inl e \<Rightarrow> Inl e | Inr ok \<Rightarrow> Inr False))
       \<and> (\<forall>cs ds cs' ok. NodeModel f ch \<in> set cs \<and> checkChildren b3 ws cs = (ds, cs', Inr ok)
             \<longrightarrow> \<not> ok \<and> error (view_of_model f) (UndefinedNode (nm_name f)) \<in> set ds)"
proof -
  have a: "checkNodeData b3 ws (NodeModel f ch)
           = ([error (view_of_model f) (UndefinedNode (nm_name f))], NodeModel f ch, Inr False)"
    using assms by (simp add: Let_def)
  have b: "checkChildren b3 ws (NodeModel f ch # rest)
           = (case checkChildren b3 ws rest of
                (ds, rest', r) \<Rightarrow>
                  (error (view_of_model f) (UndefinedNode (nm_name f)) # ds,
                   NodeModel f ch # rest',
                   case r of Inl e \<Rightarrow> Inl e | Inr ok \<Rightarrow> Inr False))"
    by (simp only: checkChildren.simps a) (simp split: prod.splits sum.splits)
  from a b checkChildren_unknown_member[OF assms] show ?thesis by blast
qed

theorem undefined_node_stops_descent_witness:
  "checkChildren specB3Type small_registry
      [modelNode 2 ''Foo'' (Some [modelNode 3 ''Bar'' None]), modelNode 4 ''Baz'' None]
     = ([Diag ''2'' ''Foo'' (UndefinedNode ''Foo''), Diag ''4'' ''Baz'' (UndefinedNode ''Baz'')],
        [modelNode 2 ''Foo'' (Some [modelNode 3 ''Bar'' None]), modelNode 4 ''Baz'' None],
        Inr False)"
proof -
  have u: "nd_name (getNodeDef small_registry n) = nd_name (unknownNodeDef specB3Type)"
    if "n \<noteq> ''Sequence''" for n
    using that by (simp add: small_registry_def)
  have i: "int_toString 2 = ''2''" "int_toString 4 = ''4''" by code_simp+
  have f: "modelNode i n ch = NodeModel (nm_fields (modelNode i n ch)) ch" for i n ch
    by (simp add: modelNode_def)
  have n: "nm_name (nm_fields (modelNode i n ch)) = n" for i n ch
    by (simp add: modelNode_def)
  have "nd_name (getNodeDef small_registry (nm_name (nm_fields (modelNode 2 ''Foo'' (Some [modelNode 3 ''Bar'' None])))))
          = nd_name (unknownNodeDef specB3Type)"
       "nd_name (getNodeDef small_registry (nm_name (nm_fields (modelNode 4 ''Baz'' None))))
          = nd_name (unknownNodeDef specB3Type)"
    by (simp_all add: n u)
  from undefined_node_stops_descent[OF this(1), where ch = "Some [modelNode 3 ''Bar'' None]"
         and rest = "[modelNode 4 ''Baz'' None]"]
       undefined_node_stops_descent[OF this(2), where ch = None and rest = "[]"]
  show ?thesis
    by (simp add: f[symmetric] n del: checkNodeData.simps)
       (simp add: modelNode_def error_def view_of_model_def i)
qed

theorem undefined_node_children_unchecked:
  "fst (checkNodeData specB3Type small_registry (modelNode 1 ''Foo'' (Some [modelNode 2 ''Bar'' None])))
     = [Diag ''1'' ''Foo'' (UndefinedNode ''Foo'')]
   \<and> fst (checkNodeData specB3Type small_registry (modelNode 2 ''Bar'' None))
     = [Diag ''2'' ''Bar'' (UndefinedNode ''Bar'')]"
proof -
  have i: "int_toString 1 = ''1''" "int_toString 2 = ''2''" by code_simp+
  show ?thesis
    by (simp add: modelNode_def small_registry_def specB3Type_def Let_def error_def
        view_of_model_def i)
qed

section \<open>Round trip\<close>

lemma same_str_or_undefined: "same_str a (or_undefined_str a)"
  by (simp add: same_str_def or_undefined_str_def truthy_str_def)

lemma same_bool_or_undefined: "same_bool a (or_undefined_bool a)"
  by (simp add: same_bool_def or_undefined_bool_def truthy_bool_def)

lemma same_nodes_Nil: "same_nodes xs [] \<longleftrightarrow> xs = []"
  by (cases xs) simp_all

lemma roundtrip_fields:
  assumes "no_path f" "schema_covers ws f"
  shows "same_fields f (nm_fields (createFileData ws (TreeGraphData (newTreeData ws f parent) ch) incl))"
  using assms
  by (auto simp: same_fields_def newTreeData_def Let_def Number_toFixed same_str_or_undefined
      same_bool_or_undefined same_args_def same_slots_def list_or_empty_def no_length_def
      schema_covers_def no_path_def same_str_def or_undefined_str_def split: option.splits)

lemma not_subtree_root_new: "\<not> isSubtreeRoot (newTreeData ws f parent)"
  by (simp add: isSubtreeRoot_def newTreeData_def truthy_str_def)

lemma roundtrip_aux:
  "(\<forall>g\<in>set (model_nodes m). no_path g \<and> schema_covers ws g) \<longrightarrow>
     same_node m (createFileData ws (snd (createTreeData ws fs st m parent)) incl)"
  "(\<forall>g\<in>set (model_nodes_list cs). no_path g \<and> schema_covers ws g) \<longrightarrow>
     same_nodes cs (createFileDatas ws (snd (createChildren ws fs st cs pid)) incl)"
proof (induction ws fs st m parent and ws fs st cs pid rule: createTreeData_createChildren.induct)
  case (1 ws fs st f ch parent)
  show ?case
  proof
    assume h: "\<forall>g\<in>set (model_nodes (NodeModel f ch)). no_path g \<and> schema_covers ws g"
    then have hf: "no_path f" "schema_covers ws f" by auto
    let ?td = "newTreeData ws f parent"
    show "same_node (NodeModel f ch)
            (createFileData ws (snd (createTreeData ws fs st (NodeModel f ch) parent)) incl)"
    proof (cases ch)
      case None
      from hf(1) have "nm_path f = None \<or> nm_path f = Some []"
        by (auto simp: no_path_def truthy_str_def split: option.splits)
      with None have e: "snd (createTreeData ws fs st (NodeModel f ch) parent) = TreeGraphData ?td None"
        by (auto simp: createTreeData.simps Let_def)
      have "createFileData ws (TreeGraphData ?td None) incl
              = NodeModel (nm_fields (createFileData ws (TreeGraphData ?td None) incl)) None"
        by (simp add: Let_def)
      with roundtrip_fields[OF hf, of parent None incl] None e show ?thesis
        by (metis same_node.simps(1))
    next
      case (Some cs)
      obtain st2 ts where c: "createChildren ws fs (enterTree parent st) cs (tg_id ?td) = (st2, ts)"
        by (cases "createChildren ws fs (enterTree parent st) cs (tg_id ?td)")
      with Some have e: "snd (createTreeData ws fs st (NodeModel f ch) parent)
                           = TreeGraphData ?td (Some ts)"
        by (simp add: createTreeData.simps Let_def)
      from h Some have "\<forall>g\<in>set (model_nodes_list cs). no_path g \<and> schema_covers ws g" by auto
      with 1(2)[OF refl refl Some] c have ih: "same_nodes cs (createFileDatas ws ts incl)" by simp
      show ?thesis
      proof (cases ts)
        case Nil
        with ih have "cs = []" by (simp add: same_nodes_Nil)
        moreover have "createFileData ws (TreeGraphData ?td (Some [])) incl
              = NodeModel (nm_fields (createFileData ws (TreeGraphData ?td (Some [])) incl)) None"
          by (simp add: Let_def)
        ultimately show ?thesis
          using roundtrip_fields[OF hf, of parent "Some []" incl] Some e Nil
          by (metis same_node.simps(3))
      next
        case (Cons t ts')
        have "createFileData ws (TreeGraphData ?td (Some ts)) incl
              = NodeModel (nm_fields (createFileData ws (TreeGraphData ?td (Some ts)) incl))
                  (Some (createFileDatas ws ts incl))"
          using Cons not_subtree_root_new[of ws f parent] by (simp add: Let_def)
        then show ?thesis
          using roundtrip_fields[OF hf, of parent "Some ts" incl] Some e ih
          by (metis same_node.simps(4))
      qed
    qed
  qed
next
  case (2 ws fs st pid)
  then show ?case by (simp add: createChildren.simps)
next
  case (3 ws fs st c cs pid)
  obtain st1 t where r: "createTreeData ws fs st c (Some pid) = (st1, t)"
    by (cases "createTreeData ws fs st c (Some pid)")
  obtain st2 ts where r2: "createChildren ws fs st1 cs pid = (st2, ts)"
    by (cases "createChildren ws fs st1 cs pid")
  from 3(1) 3(2)[OF r[symmetric]] r r2 show ?case
    by (auto simp: createChildren.simps)
qed

text \<open>
  Claim C1, as the code has it. Let no node of \<open>m\<close> carry a subtree path, and let every
  node carry arguments, inputs and outputs only where its definition declares some. Then
  \<^verbatim>\<open>createFileData(createTreeData(m))\<close> is \<open>m\<close> up to the order of keys and the elision of
  empty optional fields, for every file system, parsing state, parent and
  \<^verbatim>\<open>includeSubtree\<close>. (Where the definition declares no arguments, inputs or outputs,
  \<^verbatim>\<open>createFileData\<close> drops the field whatever it holds.)
\<close>

theorem roundtrip_up_to_elision:
  assumes "\<forall>g\<in>set (model_nodes m). no_path g"
    and "\<forall>g\<in>set (model_nodes m). schema_covers ws g"
  shows "same_node m (createFileData ws (snd (createTreeData ws fs st m parent)) includeSubtree)"
  using roundtrip_aux(1)[of m ws fs st parent includeSubtree] assms by blast

theorem roundtrip_up_to_elision_witness:
  "same_node example_model
     (createFileData project_registry
        (snd (createTreeData project_registry [] empty_state example_model None)) False)"
proof -
  have p: "\<forall>g\<in>set (model_nodes example_model). no_path g"
    by (simp add: example_model_def modelNode_def withArgs_def no_path_def truthy_str_def)
  have c: "\<forall>g\<in>set (model_nodes example_model). schema_covers project_registry g"
    by (simp add: example_model_def modelNode_def withArgs_def schema_covers_def
        project_registry_def plainDef_def no_length_def)
  from roundtrip_up_to_elision[OF p c] show ?thesis .
qed

theorem roundtrip_drops_undeclared_input:
  "nm_input (nm_fields (createFileData project_registry
        (snd (createTreeData project_registry [] empty_state
                (withInput [''x''] (modelNode 1 ''Sequence'' None)) None)) False)) = None
   \<and> \<not> same_node (withInput [''x''] (modelNode 1 ''Sequence'' None))
        (createFileData project_registry
           (snd (createTreeData project_registry [] empty_state
                   (withInput [''x''] (modelNode 1 ''Sequence'' None)) None)) False)"
  by (simp add: withInput_def modelNode_def createTreeData.simps Let_def newTreeData_def
      project_registry_def plainDef_def no_length_def same_fields_def same_slots_def
      list_or_empty_def)

section \<open>Reference cycles\<close>

lemma subtreePath_inj: "subtreePath ws p = subtreePath ws q \<longleftrightarrow> p = q"
  by (simp add: subtreePath_def)

lemma id_strings: "int_toString 1 = ''1''" "int_toString 2 = ''2''"
  by code_simp+

lemma cut_rule:
  assumes "nm_path f = Some p" "p \<noteq> []" "p \<in> set (parsingStack (enterTree parent st))"
  shows "createTreeData ws fs st (NodeModel f None) parent
           = (message_error (CircularRef p) (enterTree parent st),
              TreeGraphData ((newTreeData ws f parent)\<lparr>tg_path := Some p\<rparr>) None)"
  using assms by (simp add: createTreeData.simps Let_def)

lemma createTreeData_balanced:
  "parsingStack (fst (createTreeData ws fs st m parent)) = parsingStack (enterTree parent st)"
  "pid \<noteq> [] \<longrightarrow> parsingStack (fst (createChildren ws fs st cs pid)) = parsingStack st"
proof (induction ws fs st m parent and ws fs st cs pid rule: createTreeData_createChildren.induct)
  case (1 ws fs st f ch parent)
  show ?case
  proof (cases ch)
    case (Some cs)
    with 1(2)[OF refl refl Some] show ?thesis
      by (auto simp: createTreeData.simps newTreeData_def toFixed_nonempty Let_def split: prod.splits)
  next
    case None
    show ?thesis
    proof (cases "nm_path f")
      case n: None
      with None show ?thesis by (simp add: createTreeData.simps Let_def)
    next
      case (Some p)
      show ?thesis
      proof (cases "p = [] \<or> p \<in> set (parsingStack (enterTree parent st))")
        case True
        with None Some show ?thesis by (auto simp: createTreeData.simps Let_def)
      next
        case False
        show ?thesis
        proof (cases "readSubtree ws fs p")
          case n: None
          with False None Some show ?thesis by (simp add: createTreeData.simps Let_def)
        next
          case s: (Some a)
          obtain rt mtime where a: "a = (rt, mtime)" by (cases a)
          from False have "p \<noteq> []" "p \<notin> set (parsingStack (enterTree parent st))" by auto
          from 1(1)[OF refl refl None Some this s a[symmetric]]
          show ?thesis using False None Some s a
            by (auto simp: createTreeData.simps newTreeData_def Let_def split: prod.splits)
        qed
      qed
    qed
  qed
next
  case (2 ws fs st pid)
  then show ?case by (simp add: createChildren.simps)
next
  case (3 ws fs st c cs pid)
  show ?case
  proof
    assume pid: "pid \<noteq> []"
    obtain st1 t where r: "createTreeData ws fs st c (Some pid) = (st1, t)"
      by (cases "createTreeData ws fs st c (Some pid)")
    from 3(1) r pid have "parsingStack st1 = parsingStack st"
      by (simp add: enterTree_def truthy_str_def)
    with 3(2)[OF r[symmetric]] pid r
    show "parsingStack (fst (createChildren ws fs st (c # cs) pid)) = parsingStack st"
      by (auto simp: createChildren.simps split: prod.splits)
  qed
qed

lemma cycle_scenario:
  assumes "a \<noteq> b" "a \<noteq> []" "b \<noteq> []"
  shows "createTreeData ws (two_files ws a b) st (fileRoot b) None
           = (st\<lparr>parsingStack := [], messages := messages st @ [CircularRef b]\<rparr>,
              cycle_graph ws a b)"
proof -
  let ?fs = "two_files ws a b"
  have rb: "readSubtree ws ?fs b = Some (fileRoot a, 20)"
    and ra: "readSubtree ws ?fs a = Some (fileRoot b, 10)"
    using assms(1) by (simp_all add: readSubtree_def two_files_def subtreePath_inj)
  have tid: "tg_id (newTreeData ws rootFields q) = ''1''" "tg_id (newTreeData ws (refFields p) q) = ''2''" for p q
    by (simp_all add: newTreeData_def rootFields_def refFields_def id_strings)
  have pth: "nm_path (refFields p) = Some p" for p by (simp add: refFields_def)
  have e1: "enterTree (Some ''1'') s = s" "enterTree (Some ''2'') s = s" for s
    by (simp_all add: enterTree_def truthy_str_def)
  let ?s0 = "enterTree None st"
  have s0: "parsingStack ?s0 = []" by (simp add: enterTree_def truthy_str_def)
  \<comment> \<open>innermost: the reference to \<open>b\<close> met with \<open>[b, a]\<close> on the stack\<close>
  have c3: "createTreeData ws ?fs (push a (push b ?s0)) (NodeModel (refFields b) None) (Some ''1'')
              = (message_error (CircularRef b) (push a (push b ?s0)), cut_node ws b)"
    using cut_rule[of "refFields b" b "Some ''1''" "push a (push b ?s0)" ws ?fs] assms
    by (simp add: pth e1 s0 cut_node_def)
  have c2: "createTreeData ws ?fs (push a (push b ?s0)) (fileRoot b) (Some ''2'')
              = (message_error (CircularRef b) (push a (push b ?s0)),
                 TreeGraphData (newTreeData ws rootFields (Some ''2'')) (Some [cut_node ws b]))"
    by (simp add: fileRoot_def createTreeData.simps[of _ _ _ rootFields] createChildren.simps
        Let_def tid e1 c3)
  have c1: "createTreeData ws ?fs (push b ?s0) (NodeModel (refFields a) None) (Some ''1'')
              = (pop (message_error (CircularRef b) (push a (push b ?s0))),
                 spliced_file ws a 10 (cut_node ws b))"
    using assms
    by (simp add: createTreeData.simps[of _ _ _ "refFields a"] Let_def pth e1 s0 ra tid c2
        spliced_file_def)
  have c0: "createTreeData ws ?fs (push b ?s0) (fileRoot a) (Some ''2'')
              = (pop (message_error (CircularRef b) (push a (push b ?s0))),
                 TreeGraphData (newTreeData ws rootFields (Some ''2''))
                   (Some [spliced_file ws a 10 (cut_node ws b)]))"
    by (simp add: fileRoot_def createTreeData.simps[of _ _ _ rootFields] createChildren.simps
        Let_def tid e1 c1)
  have b1: "createTreeData ws ?fs ?s0 (NodeModel (refFields b) None) (Some ''1'')
              = (pop (pop (message_error (CircularRef b) (push a (push b ?s0)))),
                 spliced_file ws b 20 (spliced_file ws a 10 (cut_node ws b)))"
    using assms
    by (simp add: createTreeData.simps[of _ _ _ "refFields b"] Let_def pth e1 s0 rb tid c0
        spliced_file_def)
  have top: "createTreeData ws ?fs st (fileRoot b) None
              = (pop (pop (message_error (CircularRef b) (push a (push b ?s0)))),
                 cycle_graph ws a b)"
    by (simp add: fileRoot_def createTreeData.simps[of _ _ _ rootFields] createChildren.simps
        Let_def tid b1 cycle_graph_def)
  have "pop (pop (message_error (CircularRef b) (push a (push b ?s0))))
          = st\<lparr>parsingStack := [], messages := messages st @ [CircularRef b]\<rparr>"
    by (simp add: pop_def push_def message_error_def enterTree_def truthy_str_def)
  with top show ?thesis by simp
qed

text \<open>
  Claim C8. \<^verbatim>\<open>createTreeData\<close> is a total function: it returns for every finite file
  system, because each descent into a subtree file pushes a path that was not on the stack
  and that names a file, and every call returns the stack it was given. When file \<open>a\<close>
  references file \<open>b\<close> and \<open>b\<close> references \<open>a\<close>, opening \<open>a\<close> splices in \<open>b\<close>, then \<open>a\<close> once
  more, and stops at the reference to \<open>b\<close> met while \<open>b\<close> is on the stack: that node keeps
  its \<^verbatim>\<open>path\<close> and gets no children, and the one message shown is the circular-reference
  message for \<open>b\<close>. In general a reference whose path is on the stack is returned
  unresolved with exactly one such message.
\<close>

theorem cycle_is_cut_once:
  assumes "a \<noteq> b" "a \<noteq> []" "b \<noteq> []"
  shows "createTreeData ws (two_files ws a b) st (fileRoot b) None
           = (st\<lparr>parsingStack := [], messages := messages st @ [CircularRef b]\<rparr>,
              cycle_graph ws a b)
       \<and> (\<forall>fs' f p parent st'.
             nm_path f = Some p \<and> p \<noteq> [] \<and> p \<in> set (parsingStack (enterTree parent st'))
             \<longrightarrow> createTreeData ws fs' st' (NodeModel f None) parent
                   = (message_error (CircularRef p) (enterTree parent st'),
                      TreeGraphData ((newTreeData ws f parent)\<lparr>tg_path := Some p\<rparr>) None))
       \<and> (\<forall>fs' st' m parent.
             parsingStack (fst (createTreeData ws fs' st' m parent))
               = parsingStack (enterTree parent st'))"
  using cycle_scenario[OF assms] cut_rule createTreeData_balanced(1) by blast

theorem cycle_is_cut_once_witness:
  "createTreeData project_registry (two_files project_registry ''a.json'' ''b.json'')
      empty_state (fileRoot ''b.json'') None
     = (\<lparr>parsingStack = [], messages = [CircularRef ''b.json'']\<rparr>,
        cycle_graph project_registry ''a.json'' ''b.json'')"
  using cycle_is_cut_once[of "''a.json''" "''b.json''" project_registry empty_state]
  by (simp add: empty_state_def)

end
